theory Spec2Isabelle
  imports Complex_Main "HOL-Library.Multiset" "HOL-Library.Log_Nat"
begin

section \<open>Savant DeepStream pipeline: stream admission, release and batch reconciliation\<close>

text \<open>
  A shallow embedding of \<^verbatim>\<open>savant/deepstream/pipeline.py\<close> (class \<^verbatim>\<open>NvDsPipeline\<close>),
  \<^verbatim>\<open>savant/deepstream/source_output.py\<close> and the aligned bounding box of
  \<^verbatim>\<open>savant/meta/bbox.py\<close>. Python objects that are mutated in place become
  values that are passed and returned; exceptions become values of the type \<open>error\<close>.
  GStreamer itself (element states, the bin's children, pad links of the per-stream chains)
  is outside the embedding: an element handle is the name of its factory, and only the
  Python-side bookkeeping of the pipeline object is state.
\<close>

datatype error =
  KeyError | IndexError | ZeroDivisionError | OverflowError | TypeError | AttributeError

subsection \<open>Resolutions and frame parameters\<close>

record resolution =
  width :: int
  height :: int

text \<open>
  \<^verbatim>\<open>FrameParameters\<close> is declared in \<^verbatim>\<open>savant.config.schema\<close>, which is not part of the
  sources at hand. The fields read by the code are kept as they are read: \<^verbatim>\<open>width\<close>,
  \<^verbatim>\<open>height\<close>, \<^verbatim>\<open>total_width\<close>, \<^verbatim>\<open>total_height\<close> and the optional \<^verbatim>\<open>padding\<close> with its
  flag \<^verbatim>\<open>keep\<close>.
\<close>

record frame_padding =
  keep :: bool

record frame_parameters =
  frame_width :: int
  frame_height :: int
  total_width :: int
  total_height :: int
  padding :: "frame_padding option"

subsection \<open>Python arithmetic used by the output variants\<close>

text \<open>
  \<^verbatim>\<open>round(x)\<close> with one argument rounds to the nearest integer, a tie going to the even
  neighbour. \<open>true_div\<close> is the exact quotient of two integers; it is what a comparison
  of a floating-point number with \<^verbatim>\<open>a / 2\<close> sees for the dimensions of a frame.
\<close>

definition true_div :: "int \<Rightarrow> int \<Rightarrow> rat" where
  "true_div a b = of_int a / of_int b"

definition py_round :: "rat \<Rightarrow> int" where
  "py_round x =
     (let f = \<lfloor>x\<rfloor>; d = x - of_int f
      in if d < 1 / 2 then f
         else if 1 / 2 < d then f + 1
         else if even f then f else f + 1)"

text \<open>
  A Python \<^verbatim>\<open>float\<close> is an IEEE 754 binary64 number. A finite one is a rational
  \<open>m * 2 powi q\<close> with \<open>\<bar>m\<bar> < 2 ^ 53\<close> and \<open>- 1074 \<le> q\<close>, of magnitude below \<open>2 ^ 1024\<close>.
  \<open>ilog2 x\<close> is the exponent of the leading bit of \<open>x \<noteq> 0\<close>, and \<open>round_double x\<close> is the
  multiple of the spacing of the doubles around \<open>x\<close> (\<open>2 powi (ilog2 x - 52)\<close>, and
  \<open>2 powi (- 1074)\<close> among the subnormal numbers) that is nearest to \<open>x\<close>, a tie going to
  the even multiple: the result of an arithmetic operation whose exact value is \<open>x\<close>, as
  long as it stays below \<open>2 ^ 1024\<close>. The two zeros are not told apart.
\<close>

definition ilog2 :: "rat \<Rightarrow> int" where
  "ilog2 x =
     (let d = bitlen (fst (quotient_of \<bar>x\<bar>)) - bitlen (snd (quotient_of \<bar>x\<bar>))
      in if 2 powi d \<le> \<bar>x\<bar> then d else d - 1)"

definition round_double :: "rat \<Rightarrow> rat" where
  "round_double x =
     (if x = 0 then 0
      else let q = max (ilog2 x - 52) (- 1074)
           in of_int (py_round (x / 2 powi q)) * 2 powi q)"

definition is_double :: "rat \<Rightarrow> bool" where
  "is_double x \<longleftrightarrow> round_double x = x \<and> \<bar>x\<bar> < 2 ^ 1024"

text \<open>
  \<^verbatim>\<open>a / b\<close> on Python integers is true division: the exact quotient rounded to a
  \<^verbatim>\<open>float\<close>; it raises \<^verbatim>\<open>ZeroDivisionError\<close> for \<^verbatim>\<open>b = 0\<close> and \<^verbatim>\<open>OverflowError\<close> when the
  result is too large for a \<^verbatim>\<open>float\<close>.
\<close>

definition int_true_div :: "int \<Rightarrow> int \<Rightarrow> error + rat" where
  "int_true_div a b =
     (if b = 0 then Inl ZeroDivisionError
      else let r = round_double (of_int a / of_int b)
           in if 2 ^ 1024 \<le> \<bar>r\<bar> then Inl OverflowError else Inr r)"

subsection \<open>Output variants (\<^verbatim>\<open>source_output.py\<close>)\<close>

type_synonym element = string

record codec_info =
  encoder :: string
  parser :: string

datatype source_output =
    SourceOutputOnlyMeta
  | SourceOutputRawRgba frame_parameters
  | SourceOutputEncoded codec_info frame_parameters
  | SourceOutputH26X codec_info frame_parameters
  | SourceOutputPng codec_info frame_parameters

text \<open>\<^verbatim>\<open>SourceOutputWithFrame.dest_resolution\<close>; \<^verbatim>\<open>//\<close> is floor division, as \<open>div\<close> on \<open>int\<close>.\<close>

definition with_frame_dest_resolution :: "frame_parameters \<Rightarrow> resolution \<Rightarrow> error + resolution" where
  "with_frame_dest_resolution fp src =
     (case padding fp of
        None \<Rightarrow> Inr \<lparr>width = width src, height = height src\<rparr>
      | Some p \<Rightarrow>
          if keep p then
            (if frame_width fp = 0 \<or> frame_height fp = 0 then Inl ZeroDivisionError
             else Inr \<lparr>width = width src * total_width fp div frame_width fp,
                       height = height src * total_height fp div frame_height fp\<rparr>)
          else Inr \<lparr>width = width src, height = height src\<rparr>)"

text \<open>
  The method \<^verbatim>\<open>dest_resolution\<close> of each variant. \<^verbatim>\<open>SourceOutputPng\<close> rounds what its
  superclass computes: \<^verbatim>\<open>round(dest_resolution.width / 8) * 8\<close>, the width before the
  height, the division being the true division of Python.
\<close>

fun source_output_dest_resolution :: "source_output \<Rightarrow> resolution \<Rightarrow> error + resolution" where
  "source_output_dest_resolution SourceOutputOnlyMeta src =
     Inr \<lparr>width = width src, height = height src\<rparr>"
| "source_output_dest_resolution (SourceOutputRawRgba fp) src = with_frame_dest_resolution fp src"
| "source_output_dest_resolution (SourceOutputEncoded c fp) src = with_frame_dest_resolution fp src"
| "source_output_dest_resolution (SourceOutputH26X c fp) src = with_frame_dest_resolution fp src"
| "source_output_dest_resolution (SourceOutputPng c fp) src =
     (case with_frame_dest_resolution fp src of
        Inl e \<Rightarrow> Inl e
      | Inr d \<Rightarrow>
          (case int_true_div (width d) 8 of
             Inl e \<Rightarrow> Inl e
           | Inr qw \<Rightarrow>
               (case int_true_div (height d) 8 of
                  Inl e \<Rightarrow> Inl e
                | Inr qh \<Rightarrow> Inr \<lparr>width = py_round qw * 8, height = py_round qh * 8\<rparr>)))"

text \<open>
  The elements that \<^verbatim>\<open>add_output\<close> appends to \<^verbatim>\<open>source_info.after_demuxer\<close>, in order:
  nothing for the metadata-only variant; otherwise the converter, the transform elements
  (\<^verbatim>\<open>_add_transform_elems\<close>: none, the encoder, or the encoder and the parser) and the caps
  filter.
\<close>

fun add_transform_elems :: "source_output \<Rightarrow> element list" where
  "add_transform_elems SourceOutputOnlyMeta = []"
| "add_transform_elems (SourceOutputRawRgba fp) = []"
| "add_transform_elems (SourceOutputEncoded c fp) = [encoder c]"
| "add_transform_elems (SourceOutputH26X c fp) = [encoder c, parser c]"
| "add_transform_elems (SourceOutputPng c fp) = [encoder c]"

fun add_output :: "source_output \<Rightarrow> element list" where
  "add_output SourceOutputOnlyMeta = []"
| "add_output so = [''nvvideoconvert''] @ add_transform_elems so @ [''capsfilter'']"

section \<open>Per-batch metadata reconciliation (\<^verbatim>\<open>NvDsPipeline.update_frame_meta\<close>)\<close>

subsection \<open>The batch metadata as the reconciler reads it\<close>

text \<open>
  The native records of \<^verbatim>\<open>pyds\<close>: a batch is a list of frames (\<^verbatim>\<open>nvds_frame_meta_iterator\<close>),
  a frame a list of objects (\<^verbatim>\<open>nvds_obj_meta_iterator\<close>), and an object yields lists of
  attributes (\<^verbatim>\<open>nvds_attr_meta_iterator\<close>). The iteration orders are the orders of the lists.
\<close>

record attr_meta =
  element_name :: string
  name :: string
  attr_value :: string

record nvds_obj_meta =
  obj_label :: string
  object_id :: int
  rect_params :: "rat \<times> rat \<times> rat \<times> rat"
  attr_meta_lists :: "attr_meta list list"





subsection \<open>First iteration: object identities\<close>

text \<open>
  \<^verbatim>\<open>object_ids = defaultdict(int)\<close> is a total map with default 0, created anew for each
  frame. An untracked object takes the counter of its label, which is then incremented.
\<close>

fun correct_object_ids :: "int \<Rightarrow> (string \<Rightarrow> int) \<Rightarrow> nvds_obj_meta list \<Rightarrow> nvds_obj_meta list" where
  "correct_object_ids u object_ids [] = []"
| "correct_object_ids u object_ids (ob # obs) =
     (if object_id ob = u
      then ob\<lparr>object_id := object_ids (obj_label ob)\<rparr>
             # correct_object_ids u (object_ids(obj_label ob := object_ids (obj_label ob) + 1)) obs
      else ob # correct_object_ids u object_ids obs)"

subsection \<open>Second iteration: conversion, internal attributes, the primary object\<close>






subsection \<open>Registration of internal attributes (\<^verbatim>\<open>NvDsPipeline.add_element\<close>)\<close>

text \<open>
  Of \<^verbatim>\<open>add_element\<close> the effect on \<^verbatim>\<open>self._internal_attrs\<close>: for a model element whose model
  is an attribute model or a complex model, every output attribute flagged internal is
  registered under the element's name. The configuration classes are not part of the
  sources at hand; an element is its name and, for a model element, the kind of model and
  its output attributes.
\<close>

datatype model_kind = AttributeModel | ComplexModel | ObjectModel






subsection \<open>One frame, and the batch\<close>



section \<open>Stream admission and release (\<^verbatim>\<open>NvDsPipeline\<close>)\<close>

subsection \<open>Stream state\<close>

text \<open>
  A \<^verbatim>\<open>SourceInfo\<close> object, with the fields the pipeline reads and writes. \<open>lock\<close> is the
  flag of its \<^verbatim>\<open>threading.Event\<close>: \<^verbatim>\<open>set()\<close> makes it true, \<^verbatim>\<open>clear()\<close> false, and
  \<^verbatim>\<open>wait(5)\<close> answers whether it is true. The objects are shared by reference between the
  registry, the pad probes and the deferred callbacks, so they live in a store
  (\<open>infos\<close> below) and a reference is an index into it.
\<close>

record source_info =
  source_id :: string
  pad_idx :: "nat option"
  src_resolution :: "resolution option"
  dest_resolution :: "resolution option"
  before_muxer :: "element list"
  after_demuxer :: "element list"
  lock :: bool

text \<open>
  Modelled from the spec: the class \<^verbatim>\<open>SourceInfoRegistry\<close> (module
  \<^verbatim>\<open>savant.utils.source_info\<close>) is not part of the sources at hand. The spec describes the
  registry as a mapping from stream identifier to stream state that also resolves a
  stream identifier from a slot index, whose entry is removed once teardown completes.
  The spec calls the gate of a fresh stream state pre-set, while an event object of the
  language starts cleared; the state of a fresh gate is therefore the parameter
  \<open>fresh_gate\<close>, and nothing proved below depends on it.
\<close>

record registry =
  by_source_id :: "string \<rightharpoonup> nat"
  by_pad_index :: "nat \<rightharpoonup> string"
  fresh_gate :: bool

text \<open>
  A callback scheduled with \<^verbatim>\<open>GLib.idle_add\<close>, with the \<^verbatim>\<open>SourceInfo\<close> it was given. Both
  callbacks return \<^verbatim>\<open>False\<close>, so each runs once.
\<close>

datatype idle_task = RemoveInputElements nat | RemoveOutputElements nat

datatype pad_probe_return = PASS | DROP | REMOVE

text \<open>
  The pipeline object: its output variant, \<^verbatim>\<open>_suppress_eos\<close>, \<^verbatim>\<open>_max_parallel_streams\<close> (the
  number of demuxer source pads), the registry \<^verbatim>\<open>_sources\<close>, the store of \<^verbatim>\<open>SourceInfo\<close>
  objects, \<^verbatim>\<open>_free_pad_indices\<close> (a Python list, which may hold \<^verbatim>\<open>None\<close>), the callbacks
  waiting in the main loop, and the stream identifiers of the \<^verbatim>\<open>SinkEndOfStream\<close> messages
  put on \<^verbatim>\<open>_queue\<close>.
\<close>

record pipeline =
  source_output :: source_output
  suppress_eos :: bool
  max_parallel_streams :: nat
  sources :: registry
  infos :: "source_info list"
  free_pad_indices :: "nat option list"
  idle :: "idle_task list"
  queue :: "string list"

text \<open>The constructor followed by \<^verbatim>\<open>_add_sink\<close>: every pad index is free.\<close>

definition new_pipeline :: "source_output \<Rightarrow> bool \<Rightarrow> nat \<Rightarrow> bool \<Rightarrow> pipeline" where
  "new_pipeline so suppress n gate =
     \<lparr>source_output = so, suppress_eos = suppress, max_parallel_streams = n,
      sources = \<lparr>by_source_id = Map.empty, by_pad_index = Map.empty, fresh_gate = gate\<rparr>,
      infos = [], free_pad_indices = map Some [0..<n], idle = [], queue = []\<rparr>"

definition update_info :: "nat \<Rightarrow> (source_info \<Rightarrow> source_info) \<Rightarrow> pipeline \<Rightarrow> pipeline" where
  "update_info r f s = s\<lparr>infos := (infos s)[r := f (infos s ! r)]\<rparr>"

subsection \<open>The registry\<close>

text \<open>Modelled from the spec: \<^verbatim>\<open>SourceInfoRegistry.get_source\<close>, which raises \<^verbatim>\<open>KeyError\<close> (as
  the handler in \<^verbatim>\<open>on_source_added\<close> shows) for an identifier without entry.\<close>

definition get_source :: "pipeline \<Rightarrow> string \<Rightarrow> error + nat" where
  "get_source s sid =
     (case by_source_id (sources s) sid of None \<Rightarrow> Inl KeyError | Some r \<Rightarrow> Inr r)"

text \<open>Modelled from the spec: \<^verbatim>\<open>SourceInfoRegistry.init_source\<close>, which creates a fresh stream
  state (no slot, no elements) and enters it under its identifier.\<close>

definition init_source :: "string \<Rightarrow> pipeline \<Rightarrow> nat \<times> pipeline" where
  "init_source sid s =
     (length (infos s),
      s\<lparr>infos := infos s @
           [\<lparr>source_id = sid, pad_idx = None, src_resolution = None, dest_resolution = None,
             before_muxer = [], after_demuxer = [], lock = fresh_gate (sources s)\<rparr>],
        sources := (sources s)\<lparr>by_source_id := (by_source_id (sources s))(sid \<mapsto> length (infos s))\<rparr>\<rparr>)"

text \<open>Modelled from the spec: \<^verbatim>\<open>SourceInfoRegistry.update_source\<close>, which enters the stream
  state under its identifier and the identifier under the slot index.\<close>

definition update_source :: "nat \<Rightarrow> pipeline \<Rightarrow> pipeline" where
  "update_source r s =
     s\<lparr>sources := (sources s)
          \<lparr>by_source_id := (by_source_id (sources s))(source_id (infos s ! r) \<mapsto> r),
           by_pad_index :=
             (case pad_idx (infos s ! r) of
                None \<Rightarrow> by_pad_index (sources s)
              | Some i \<Rightarrow> (by_pad_index (sources s))(i \<mapsto> source_id (infos s ! r)))\<rparr>\<rparr>"

text \<open>Modelled from the spec: \<^verbatim>\<open>SourceInfoRegistry.remove_source\<close>, which removes the entry
  of the stream state.\<close>

definition remove_source :: "nat \<Rightarrow> pipeline \<Rightarrow> pipeline" where
  "remove_source r s =
     s\<lparr>sources := (sources s)
          \<lparr>by_source_id := (by_source_id (sources s))(source_id (infos s ! r) := None),
           by_pad_index :=
             (case pad_idx (infos s ! r) of
                None \<Rightarrow> by_pad_index (sources s)
              | Some i \<Rightarrow> (by_pad_index (sources s))(i := None))\<rparr>\<rparr>"

subsection \<open>Admission: \<^verbatim>\<open>_on_source_caps\<close> and what it calls\<close>

text \<open>
  One turn of \<^verbatim>\<open>while source_info.pad_idx is None\<close> in the thread that admits the stream
  (no other thread gives its \<^verbatim>\<open>pad_idx\<close> a value): under \<^verbatim>\<open>_source_adding_lock\<close> the head
  of the free list is popped into \<^verbatim>\<open>pad_idx\<close>; on an empty list (\<^verbatim>\<open>IndexError\<close>) nothing
  changes and the thread sleeps before the next turn.
\<close>

definition acquire_pad_idx :: "nat \<Rightarrow> pipeline \<Rightarrow> pipeline" where
  "acquire_pad_idx r s =
     (if pad_idx (infos s ! r) \<noteq> None then s
      else case free_pad_indices s of
             [] \<Rightarrow> s
           | x # xs \<Rightarrow> update_info r (\<lambda>i. i\<lparr>pad_idx := x\<rparr>) (s\<lparr>free_pad_indices := xs\<rparr>))"

text \<open>
  \<^verbatim>\<open>_add_source_output\<close>: the output queue is appended and linked to the demuxer pad of the
  slot (\<^verbatim>\<open>self._demuxer_src_pads[source_info.pad_idx]\<close>), the destination resolution is
  computed, the elements of the output variant and the fake sink are appended. An
  exception leaves what was done before it.
\<close>

definition add_source_output :: "nat \<Rightarrow> pipeline \<Rightarrow> error option \<times> pipeline" where
  "add_source_output r s =
     (let s1 = update_info r (\<lambda>i. i\<lparr>after_demuxer := after_demuxer i @ [''queue'']\<rparr>) s
      in case pad_idx (infos s1 ! r) of
           None \<Rightarrow> (Some TypeError, s1)
         | Some i \<Rightarrow>
             if max_parallel_streams s1 \<le> i then (Some IndexError, s1)
             else
               (case src_resolution (infos s1 ! r) of
                  None \<Rightarrow> (Some AttributeError, s1)
                | Some src \<Rightarrow>
                    (case source_output_dest_resolution (source_output s1) src of
                       Inl e \<Rightarrow> (Some e, s1)
                     | Inr d \<Rightarrow>
                         (None,
                          update_info r
                            (\<lambda>i. i\<lparr>dest_resolution := Some d,
                                   after_demuxer := after_demuxer i
                                     @ add_output (source_output s1) @ [''fakesink'']\<rparr>)
                            s1))))"

text \<open>
  \<^verbatim>\<open>_add_input_converter\<close>: \<open>accepts\<close> is the answer of \<^verbatim>\<open>query_accept_caps\<close>; when the
  converter cannot take the caps a \<^verbatim>\<open>videoconvert\<close> goes in front of it.
\<close>

definition add_input_converter :: "nat \<Rightarrow> bool \<Rightarrow> pipeline \<Rightarrow> pipeline" where
  "add_input_converter r accepts s =
     update_info r
       (\<lambda>i. i\<lparr>before_muxer := before_muxer i
                @ (if accepts then [] else [''videoconvert''])
                @ [''nvvideoconvert''] @ [''capsfilter'']\<rparr>)
       s"

text \<open>
  The second \<^verbatim>\<open>with self._source_adding_lock\<close> block of \<^verbatim>\<open>_on_source_caps\<close>, entered with a
  slot: the source resolution is recorded, the registry updated, the output chain built
  unless the stream still has one, the input chain built and linked to the muxer.
\<close>

definition link_source :: "nat \<Rightarrow> resolution \<Rightarrow> bool \<Rightarrow> pipeline \<Rightarrow> error option \<times> pipeline" where
  "link_source r res accepts s =
     (let s1 = update_source r (update_info r (\<lambda>i. i\<lparr>src_resolution := Some res\<rparr>) s)
      in if after_demuxer (infos s1 ! r) = []
         then (case add_source_output r s1 of
                 (Some e, s2) \<Rightarrow> (Some e, s2)
               | (None, s2) \<Rightarrow> (None, add_input_converter r accepts s2))
         else (None, add_input_converter r accepts s1))"

subsection \<open>Release: the deferred callbacks and the probes that schedule them\<close>

text \<open>
  \<^verbatim>\<open>_remove_input_elements\<close>: every element before the muxer is removed, the list emptied
  and the muxer sink pad released.
\<close>

definition remove_input_elements :: "nat \<Rightarrow> pipeline \<Rightarrow> pipeline" where
  "remove_input_elements r s = update_info r (\<lambda>i. i\<lparr>before_muxer := []\<rparr>) s"

text \<open>
  \<^verbatim>\<open>_remove_output_elements\<close>: every element after the demuxer is removed and the list
  emptied, the source leaves the registry, \<^verbatim>\<open>pad_idx\<close> is appended to the free list and
  set to \<^verbatim>\<open>None\<close>, and the lock is set.
\<close>

definition remove_output_elements :: "nat \<Rightarrow> pipeline \<Rightarrow> pipeline" where
  "remove_output_elements r s =
     (let s1 = update_info r (\<lambda>i. i\<lparr>after_demuxer := []\<rparr>) s;
          s2 = remove_source r s1;
          s3 = s2\<lparr>free_pad_indices := free_pad_indices s2 @ [pad_idx (infos s2 ! r)]\<rparr>;
          s4 = update_info r (\<lambda>i. i\<lparr>pad_idx := None\<rparr>) s3
      in update_info r (\<lambda>i. i\<lparr>lock := True\<rparr>) s4)"

text \<open>\<^verbatim>\<open>on_last_pad_eos\<close>, the probe for EOS on the sink pad of the stream's fake sink.\<close>

definition on_last_pad_eos :: "nat \<Rightarrow> pipeline \<Rightarrow> pad_probe_return \<times> pipeline" where
  "on_last_pad_eos r s =
     (if suppress_eos s then DROP else PASS,
      s\<lparr>idle := idle s @ [RemoveOutputElements r],
        queue := queue s @ [source_id (infos s ! r)]\<rparr>)"

text \<open>\<^verbatim>\<open>_on_muxer_sink_pad_eos\<close>, the probe for EOS on the muxer sink pad of a stream.\<close>

definition on_muxer_sink_pad_eos :: "string \<Rightarrow> pipeline \<Rightarrow> error + pad_probe_return \<times> pipeline" where
  "on_muxer_sink_pad_eos sid s =
     (case get_source s sid of
        Inl e \<Rightarrow> Inl e
      | Inr r \<Rightarrow> Inr (PASS, s\<lparr>idle := idle s @ [RemoveInputElements r]\<rparr>))"

fun run_task :: "idle_task \<Rightarrow> pipeline \<Rightarrow> pipeline" where
  "run_task (RemoveInputElements r) s = remove_input_elements r s"
| "run_task (RemoveOutputElements r) s = remove_output_elements r s"

text \<open>The main loop runs the callback that has waited longest.\<close>

definition idle_dispatch :: "pipeline \<Rightarrow> pipeline" where
  "idle_dispatch s = (case idle s of [] \<Rightarrow> s | t # ts \<Rightarrow> run_task t (s\<lparr>idle := ts\<rparr>))"

subsection \<open>Interleavings\<close>

text \<open>
  The threads of the pipeline interleave at the sections that run under
  \<^verbatim>\<open>_source_adding_lock\<close>, at the probe callbacks and at the callbacks of the main loop;
  each is one event. \<open>SourceAdded\<close> is \<^verbatim>\<open>on_source_added\<close> for a stream without registry
  entry; \<open>LockWait\<close> is one \<^verbatim>\<open>lock.wait(5)\<close> of a thread in \<^verbatim>\<open>on_source_added\<close> whose stream
  has an entry, followed by \<^verbatim>\<open>lock.clear()\<close> when the answer is true; \<open>AcquirePadIdx\<close> and
  \<open>LinkSource\<close> are the two locked sections of \<^verbatim>\<open>_on_source_caps\<close>. A reference denotes
  an object of the store, and the second section is entered with a slot. An exception
  raised in a callback ends the callback and leaves the pipeline as it is then.
\<close>

datatype event =
    SourceAdded string
  | LockWait nat
  | AcquirePadIdx nat
  | LinkSource nat resolution bool
  | MuxerSinkPadEos string
  | LastPadEos nat
  | IdleDispatch

definition lock_wait :: "nat \<Rightarrow> pipeline \<Rightarrow> pipeline" where
  "lock_wait r s =
     (if lock (infos s ! r) then update_info r (\<lambda>i. i\<lparr>lock := False\<rparr>) s else s)"

fun step :: "event \<Rightarrow> pipeline \<Rightarrow> pipeline" where
  "step (SourceAdded sid) s =
     (case get_source s sid of Inl e \<Rightarrow> snd (init_source sid s) | Inr r \<Rightarrow> s)"
| "step (LockWait r) s = (if r < length (infos s) then lock_wait r s else s)"
| "step (AcquirePadIdx r) s = (if r < length (infos s) then acquire_pad_idx r s else s)"
| "step (LinkSource r res accepts) s =
     (if r < length (infos s) \<and> pad_idx (infos s ! r) \<noteq> None
      then snd (link_source r res accepts s) else s)"
| "step (MuxerSinkPadEos sid) s =
     (case on_muxer_sink_pad_eos sid s of Inl e \<Rightarrow> s | Inr (ret, s') \<Rightarrow> s')"
| "step (LastPadEos r) s = (if r < length (infos s) then snd (on_last_pad_eos r s) else s)"
| "step IdleDispatch s = idle_dispatch s"

fun run :: "event list \<Rightarrow> pipeline \<Rightarrow> pipeline" where
  "run [] s = s"
| "run (e # es) s = run es (step e s)"

subsection \<open>\<^verbatim>\<open>on_source_added\<close>\<close>

text \<open>
  The loop \<^verbatim>\<open>while not source_info.lock.wait(5)\<close>. The thread sees the pipeline only at its
  polls; \<open>env\<close> lists what the other threads do between one poll and the next. When the
  other threads have nothing more to do and the lock is not set, the loop never ends:
  the result is \<open>None\<close>.
\<close>

fun wait_release :: "nat \<Rightarrow> event list list \<Rightarrow> pipeline \<Rightarrow> (pipeline \<times> event list list) option" where
  "wait_release r [] s = (if lock (infos s ! r) then Some (s, []) else None)"
| "wait_release r (evs # env) s =
     (if lock (infos s ! r) then Some (s, evs # env) else wait_release r env (run evs s))"

text \<open>
  \<^verbatim>\<open>on_source_added\<close> for a new pad with the caps name \<open>caps\<close> (\<^verbatim>\<open>None\<close> when the pad has no
  caps yet) and the stream identifier \<open>sid\<close> that \<^verbatim>\<open>pad_to_source_id\<close> reads from the pad
  name. It returns at once for a pad that is not video; otherwise it ends by installing
  the probe that calls \<^verbatim>\<open>_on_source_caps\<close> with the \<^verbatim>\<open>SourceInfo\<close> returned here.
\<close>

datatype added = NotVideo | CapsProbe nat

definition on_source_added ::
  "string option \<Rightarrow> string \<Rightarrow> event list list \<Rightarrow> pipeline \<Rightarrow> (added \<times> pipeline \<times> event list list) option" where
  "on_source_added caps sid env s =
     (if (case caps of None \<Rightarrow> False | Some nm \<Rightarrow> take 5 nm \<noteq> ''video'')
      then Some (NotVideo, s, env)
      else case get_source s sid of
             Inl e \<Rightarrow> (case init_source sid s of (r, s') \<Rightarrow> Some (CapsProbe r, s', env))
           | Inr r \<Rightarrow>
               (case wait_release r env s of
                  None \<Rightarrow> None
                | Some (s', env') \<Rightarrow>
                    Some (CapsProbe r, update_info r (\<lambda>i. i\<lparr>lock := False\<rparr>) s', env')))"

subsection \<open>Slot indices in circulation\<close>

text \<open>The slot indices held by stream states or waiting in the free list, with repetitions.\<close>

definition slots :: "pipeline \<Rightarrow> nat option multiset" where
  "slots s = filter_mset (\<lambda>x. x \<noteq> None) (mset (map pad_idx (infos s) @ free_pad_indices s))"

text \<open>Every reference kept by a waiting callback or by the registry denotes an object of the store.\<close>

fun task_ref :: "idle_task \<Rightarrow> nat" where
  "task_ref (RemoveInputElements r) = r"
| "task_ref (RemoveOutputElements r) = r"

definition valid_refs :: "pipeline \<Rightarrow> bool" where
  "valid_refs s =
     ((\<forall>t \<in> set (idle s). task_ref t < length (infos s)) \<and>
      (\<forall>sid r. by_source_id (sources s) sid = Some r \<longrightarrow> r < length (infos s)))"

section \<open>Per-stream EOS on the demuxer source pads (\<^verbatim>\<open>_on_demuxer_src_pad_eos\<close>)\<close>

text \<open>
  What the probe reads and changes: the list \<^verbatim>\<open>self._demuxer_src_pads\<close>, which pad is linked
  to which (\<^verbatim>\<open>get_peer\<close>, \<^verbatim>\<open>unlink\<close>), and the pads an EOS event was sent to
  (\<^verbatim>\<open>send_event(Gst.Event.new_eos())\<close>), in order. Pads are compared as objects; \<open>'p\<close> is
  the type of their identities.
\<close>

record 'p demuxer =
  demuxer_src_pads :: "'p list"
  peer :: "'p \<rightharpoonup> 'p"
  eos_sent :: "'p list"

text \<open>
  The probe for \<^verbatim>\<open>GST_NVEVENT_STREAM_EOS\<close> on a demuxer source pad. \<open>parsed\<close> is the answer
  of \<^verbatim>\<open>gst_nvevent_parse_stream_eos(event)\<close> (module \<^verbatim>\<open>savant.deepstream.utils\<close>, not part
  of the sources at hand): the pad index of the event, a natural number, or \<^verbatim>\<open>None\<close>.
  Indexing the list of pads beyond its length raises \<^verbatim>\<open>IndexError\<close>.
\<close>

definition on_demuxer_src_pad_eos ::
  "'p \<Rightarrow> nat option \<Rightarrow> 'p demuxer \<Rightarrow> error + pad_probe_return \<times> 'p demuxer" where
  "on_demuxer_src_pad_eos pad parsed g =
     (case parsed of
        None \<Rightarrow> Inr (PASS, g)
      | Some i \<Rightarrow>
          if length (demuxer_src_pads g) \<le> i then Inl IndexError
          else if pad \<noteq> demuxer_src_pads g ! i then Inr (PASS, g)
          else (case peer g pad of
                  None \<Rightarrow> Inr (DROP, g)
                | Some p \<Rightarrow>
                    Inr (DROP, g\<lparr>peer := (peer g)(pad := None, p := None),
                                 eos_sent := eos_sent g @ [p]\<rparr>)))"

section \<open>Bounding boxes (\<^verbatim>\<open>savant/meta/bbox.py\<close>)\<close>

subsection \<open>Floating-point values\<close>

text \<open>
  The fields of a bounding box are Python \<^verbatim>\<open>float\<close>s: a finite double, an infinity or a
  NaN. Addition, subtraction and multiplication compute the exact result and round it;
  a rounded result of magnitude \<open>2 ^ 1024\<close> or more is the infinity of its sign, and no
  operation raises.
\<close>

datatype pyfloat = Finite rat | PosInf | NegInf | NaN

definition to_float :: "rat \<Rightarrow> pyfloat" where
  "to_float x =
     (let r = round_double x
      in if 2 ^ 1024 \<le> r then PosInf
         else if r \<le> - (2 ^ 1024) then NegInf
         else Finite r)"

fun fneg :: "pyfloat \<Rightarrow> pyfloat" where
  "fneg (Finite x) = Finite (- x)"
| "fneg PosInf = NegInf"
| "fneg NegInf = PosInf"
| "fneg NaN = NaN"

fun fadd :: "pyfloat \<Rightarrow> pyfloat \<Rightarrow> pyfloat" where
  "fadd (Finite x) (Finite y) = to_float (x + y)"
| "fadd NaN b = NaN"
| "fadd a NaN = NaN"
| "fadd PosInf NegInf = NaN"
| "fadd NegInf PosInf = NaN"
| "fadd PosInf b = PosInf"
| "fadd a PosInf = PosInf"
| "fadd NegInf b = NegInf"
| "fadd a NegInf = NegInf"

definition fsub :: "pyfloat \<Rightarrow> pyfloat \<Rightarrow> pyfloat" where
  "fsub a b = fadd a (fneg b)"

fun fmul :: "pyfloat \<Rightarrow> pyfloat \<Rightarrow> pyfloat" where
  "fmul (Finite x) (Finite y) = to_float (x * y)"
| "fmul NaN b = NaN"
| "fmul a NaN = NaN"
| "fmul (Finite x) b = (if x = 0 then NaN else if 0 < x then b else fneg b)"
| "fmul a (Finite y) = (if y = 0 then NaN else if 0 < y then a else fneg a)"
| "fmul a b = (if a = b then PosInf else NegInf)"

text \<open>The literal \<^verbatim>\<open>0.5\<close>.\<close>

definition half :: pyfloat where
  "half = Finite (1 / 2)"

subsection \<open>The class \<^verbatim>\<open>BBox\<close>\<close>

text \<open>
  The dataclass \<^verbatim>\<open>BaseBBox\<close> with the properties of \<^verbatim>\<open>BBox\<close>. A setter returns the box it
  has updated.
\<close>

record BBox =
  x_center :: pyfloat
  y_center :: pyfloat
  bbox_width :: pyfloat
  bbox_height :: pyfloat

definition bbox_top :: "BBox \<Rightarrow> pyfloat" where
  "bbox_top b = fsub (y_center b) (fmul half (bbox_height b))"

definition bbox_set_top :: "pyfloat \<Rightarrow> BBox \<Rightarrow> BBox" where
  "bbox_set_top v b = b\<lparr>y_center := fadd v (fmul half (bbox_height b))\<rparr>"

definition bbox_left :: "BBox \<Rightarrow> pyfloat" where
  "bbox_left b = fsub (x_center b) (fmul half (bbox_width b))"

definition bbox_set_left :: "pyfloat \<Rightarrow> BBox \<Rightarrow> BBox" where
  "bbox_set_left v b = b\<lparr>x_center := fadd v (fmul half (bbox_width b))\<rparr>"

definition bbox_bottom :: "BBox \<Rightarrow> pyfloat" where
  "bbox_bottom b = fadd (y_center b) (fmul half (bbox_height b))"

definition bbox_right :: "BBox \<Rightarrow> pyfloat" where
  "bbox_right b = fadd (x_center b) (fmul half (bbox_width b))"

definition bbox_scale :: "pyfloat \<Rightarrow> pyfloat \<Rightarrow> BBox \<Rightarrow> BBox" where
  "bbox_scale scale_x scale_y b =
     \<lparr>x_center = fmul (x_center b) scale_x,
      y_center = fmul (y_center b) scale_y,
      bbox_width = fmul (bbox_width b) scale_x,
      bbox_height = fmul (bbox_height b) scale_y\<rparr>"

definition bbox_tlbr :: "BBox \<Rightarrow> pyfloat \<times> pyfloat \<times> pyfloat \<times> pyfloat" where
  "bbox_tlbr b = (bbox_left b, bbox_top b, bbox_right b, bbox_bottom b)"

section \<open>Example inputs\<close>





text \<open>
  A pipeline with two slots that outputs metadata only, and the events that admit the
  stream \<open>cam\<close> to it: the pad appears, a slot is taken, the chains are built.
\<close>

definition example_pipeline :: "bool \<Rightarrow> pipeline" where
  "example_pipeline gate = new_pipeline SourceOutputOnlyMeta True 2 gate"

definition example_admission :: "event list" where
  "example_admission =
     [SourceAdded ''cam'', AcquirePadIdx 0, LinkSource 0 \<lparr>width = 640, height = 480\<rparr> True]"

text \<open>
  A demuxer with two source pads, the first linked to the output queue of a stream, and
  the same demuxer after that stream has been detached.
\<close>

definition example_demuxer :: "string demuxer" where
  "example_demuxer =
     \<lparr>demuxer_src_pads = [''src_0'', ''src_1''],
      peer = [''src_0'' \<mapsto> ''queue.sink'', ''queue.sink'' \<mapsto> ''src_0''],
      eos_sent = []\<rparr>"

definition example_demuxer_detached :: "string demuxer" where
  "example_demuxer_detached =
     \<lparr>demuxer_src_pads = [''src_0'', ''src_1''], peer = Map.empty, eos_sent = [''queue.sink'']\<rparr>"



text \<open>The doubles written \<^verbatim>\<open>0.1\<close> and \<^verbatim>\<open>0.7\<close> in Python, and three boxes.\<close>

definition float_0_1 :: rat where
  "float_0_1 = 3602879701896397 / 36028797018963968"

definition float_0_7 :: rat where
  "float_0_7 = 3152519739159347 / 4503599627370496"

definition example_bbox :: BBox where
  "example_bbox =
     \<lparr>x_center = Finite 1, y_center = Finite 1,
      bbox_width = Finite 3, bbox_height = Finite 2\<rparr>"

definition example_bbox_wide :: BBox where
  "example_bbox_wide =
     \<lparr>x_center = Finite 0, y_center = Finite 0,
      bbox_width = Finite 3, bbox_height = Finite 3\<rparr>"

definition example_bbox_narrow :: BBox where
  "example_bbox_narrow =
     \<lparr>x_center = Finite float_0_7, y_center = Finite float_0_7,
      bbox_width = Finite float_0_1, bbox_height = Finite float_0_1\<rparr>"
section \<open>Rounding to the block size\<close>

lemma py_round_cases:
  "(py_round x = \<lfloor>x\<rfloor> \<and> x - of_int \<lfloor>x\<rfloor> \<le> 1 / 2) \<or>
   (py_round x = \<lfloor>x\<rfloor> + 1 \<and> 1 / 2 \<le> x - of_int \<lfloor>x\<rfloor>)"
  unfolding py_round_def Let_def by (simp add: not_less)

lemma py_round_nearest: "\<bar>of_int (py_round x) - x\<bar> \<le> \<bar>of_int m - x\<bar>"
proof -
  have a: "of_int \<lfloor>x\<rfloor> \<le> x" and b: "x < of_int \<lfloor>x\<rfloor> + 1" by linarith+
  have m: "(of_int m :: rat) \<le> of_int \<lfloor>x\<rfloor> \<or> of_int \<lfloor>x\<rfloor> + 1 \<le> (of_int m :: rat)"
  proof (cases "m \<le> \<lfloor>x\<rfloor>")
    case True
    then show ?thesis by simp
  next
    case False
    then have "\<lfloor>x\<rfloor> + 1 \<le> m" by simp
    then have "(of_int (\<lfloor>x\<rfloor> + 1) :: rat) \<le> of_int m" by (simp only: of_int_le_iff)
    then show ?thesis by simp
  qed
  from py_round_cases [of x] show ?thesis
  proof
    assume h: "py_round x = \<lfloor>x\<rfloor> \<and> x - of_int \<lfloor>x\<rfloor> \<le> 1 / 2"
    then have "of_int (py_round x) = (of_int \<lfloor>x\<rfloor> :: rat)" by simp
    with h a b m show ?thesis by linarith
  next
    assume h: "py_round x = \<lfloor>x\<rfloor> + 1 \<and> 1 / 2 \<le> x - of_int \<lfloor>x\<rfloor>"
    then have "of_int (py_round x) = (of_int \<lfloor>x\<rfloor> + 1 :: rat)" by simp
    with h a b m show ?thesis by linarith
  qed
qed

text \<open>The quotient by 8, rounded, in integer arithmetic.\<close>

lemma py_round_div8:
  "py_round (true_div n 8) =
     (if n mod 8 < 4 then n div 8
      else if 4 < n mod 8 then n div 8 + 1
      else if even (n div 8) then n div 8 else n div 8 + 1)"
proof -
  have f: "\<lfloor>(of_int n :: rat) / 8\<rfloor> = n div 8"
    using floor_divide_of_int_eq [of n 8, where ?'a = rat] by simp
  have "(of_int n :: rat) = of_int (8 * (n div 8) + n mod 8)" by simp
  then have "(of_int n :: rat) = 8 * of_int (n div 8) + of_int (n mod 8)"
    by (simp only: of_int_add of_int_mult of_int_numeral)
  then have d: "(of_int n :: rat) / 8 - of_int (n div 8) = of_int (n mod 8) / 8"
    by (simp add: field_simps)
  have lt: "(of_int (n mod 8) / 8 < (1::rat) / 2) = (n mod 8 < 4)"
  proof -
    have "(of_int (n mod 8) / 8 < (1::rat) / 2) = ((of_int (n mod 8) :: rat) < of_int 4)"
      by simp
    then show ?thesis by (simp only: of_int_less_iff)
  qed
  have gt: "((1::rat) / 2 < of_int (n mod 8) / 8) = (4 < n mod 8)"
  proof -
    have "((1::rat) / 2 < of_int (n mod 8) / 8) = ((of_int 4 :: rat) < of_int (n mod 8))"
      by simp
    then show ?thesis by (simp only: of_int_less_iff)
  qed
  show ?thesis
    unfolding py_round_def true_div_def Let_def of_int_numeral f d lt gt by simp
qed

lemma round8_nearest: "\<bar>py_round (true_div n 8) * 8 - n\<bar> \<le> \<bar>8 * m - n\<bar>"
proof -
  have "\<bar>of_int (py_round (true_div n 8)) - true_div n 8\<bar> \<le> \<bar>of_int m - true_div n 8\<bar>"
    by (rule py_round_nearest)
  then have "8 * \<bar>of_int (py_round (true_div n 8)) - (of_int n :: rat) / 8\<bar>
      \<le> 8 * \<bar>of_int m - (of_int n :: rat) / 8\<bar>"
    by (simp add: true_div_def)
  then have "\<bar>of_int (py_round (true_div n 8)) * 8 - (of_int n :: rat)\<bar>
      \<le> \<bar>8 * of_int m - (of_int n :: rat)\<bar>"
    by (simp add: abs_if field_simps split: if_splits)
  then have "(of_int \<bar>py_round (true_div n 8) * 8 - n\<bar> :: rat) \<le> of_int \<bar>8 * m - n\<bar>"
    by simp
  then show ?thesis by (simp only: of_int_le_iff)
qed

subsection \<open>Where the division by 8 is exact\<close>

lemma py_round_of_int [simp]: "py_round (of_int k) = k"
  by (simp add: py_round_def)

text \<open>The leading bit of a number does not exceed it.\<close>

lemma ilog2_le: "x \<noteq> 0 \<Longrightarrow> 2 powi (ilog2 x) \<le> \<bar>x\<bar>"
proof -
  assume x: "x \<noteq> 0"
  obtain p q where pq: "quotient_of \<bar>x\<bar> = (p, q)" by (cases "quotient_of \<bar>x\<bar>")
  from quotient_of_denom_pos [OF pq] have q: "0 < q" .
  from quotient_of_div [OF pq] have a: "\<bar>x\<bar> = of_int p / of_int q" .
  from x have "0 < \<bar>x\<bar>" by simp
  with a q have p: "0 < p" by (simp add: zero_less_divide_iff)
  let ?d = "bitlen p - bitlen q"
  show ?thesis
  proof (cases "2 powi ?d \<le> \<bar>x\<bar>")
    case True
    then show ?thesis by (simp add: ilog2_def pq)
  next
    case False
    from bitlen_bounds [OF p] have "2 ^ nat (bitlen p - 1) \<le> p" by simp
    then have "(of_int (2 ^ nat (bitlen p - 1)) :: rat) \<le> of_int p" by (simp only: of_int_le_iff)
    then have lp: "(2 :: rat) ^ nat (bitlen p - 1) \<le> of_int p" by simp
    from bitlen_bounds [OF q] have "q < 2 ^ nat (bitlen q)" by simp
    then have "(of_int q :: rat) < of_int (2 ^ nat (bitlen q))" by (simp only: of_int_less_iff)
    then have uq: "(of_int q :: rat) < 2 ^ nat (bitlen q)" by simp
    from p have bp: "1 \<le> bitlen p" using bitlen_eq_zero_iff [of p] bitlen_nonneg [of p] by linarith
    have bq: "0 \<le> bitlen q" by (rule bitlen_nonneg)
    have "(2 :: rat) powi (?d - 1) * of_int q \<le> 2 powi (?d - 1) * 2 ^ nat (bitlen q)"
      using uq by (simp add: mult_left_mono)
    also have "\<dots> = 2 powi (?d - 1) * 2 powi (bitlen q)"
      using bq by (simp add: power_int_nonneg_exp)
    also have "\<dots> = 2 powi (bitlen p - 1)"
      by (simp add: power_int_add [symmetric])
    also have "\<dots> = 2 ^ nat (bitlen p - 1)"
      using bp by (simp add: power_int_nonneg_exp)
    also note lp
    finally have "(2 :: rat) powi (?d - 1) \<le> of_int p / of_int q"
      using q by (simp add: pos_le_divide_eq)
    then have "(2 :: rat) powi (?d - 1) \<le> \<bar>x\<bar>" by (simp only: a)
    with False show ?thesis by (simp add: ilog2_def pq)
  qed
qed

text \<open>A number with a significand below \<open>2 ^ 53\<close> and an exponent from \<open>- 1074\<close> on is not rounded.\<close>

lemma round_double_exact:
  assumes "\<bar>n\<bar> < 2 ^ 53" and "- 1074 \<le> e"
  shows "round_double (of_int n * 2 powi e) = of_int n * 2 powi e"
proof (cases "n = 0")
  case True
  then show ?thesis by (simp add: round_double_def)
next
  case False
  let ?x = "of_int n * 2 powi e :: rat"
  from False have x: "?x \<noteq> 0" by simp
  from assms(1) have "(of_int \<bar>n\<bar> :: rat) < of_int (2 ^ 53)" by (simp only: of_int_less_iff)
  then have "\<bar>of_int n :: rat\<bar> < 2 powi 53" by simp
  then have "\<bar>of_int n :: rat\<bar> * 2 powi e < 2 powi 53 * 2 powi e"
    by (simp only: mult_less_cancel_right_pos zero_less_power_int zero_less_numeral)
  then have "\<bar>?x\<bar> < 2 powi (53 + e)" by (simp add: abs_mult power_int_add)
  with ilog2_le [OF x] have "(2 :: rat) powi (ilog2 ?x) < 2 powi (53 + e)" by linarith
  then have "ilog2 ?x < 53 + e"
    using power_int_increasing [of "53 + e" "ilog2 ?x" "2 :: rat"] by (cases "ilog2 ?x < 53 + e") auto
  with assms(2) have "max (ilog2 ?x - 52) (- 1074) \<le> e" by linarith
  define q where "q = max (ilog2 ?x - 52) (- 1074)"
  with \<open>max (ilog2 ?x - 52) (- 1074) \<le> e\<close> have q: "q \<le> e" by simp
  define k where "k = nat (e - q)"
  have ek: "e = q + int k" using q by (simp add: k_def)
  have p: "(2 :: rat) powi e = 2 powi q * 2 ^ k"
    unfolding ek by (simp add: power_int_add)
  have "?x / 2 powi q = of_int (n * 2 ^ k)"
    unfolding p by simp
  then have "of_int (py_round (?x / 2 powi q)) * 2 powi q = (of_int (n * 2 ^ k) :: rat) * 2 powi q"
    by (simp only: py_round_of_int)
  also have "\<dots> = ?x" unfolding p by simp
  finally have "of_int (py_round (?x / 2 powi q)) * 2 powi q = ?x" .
  then have "round_double ?x = ?x"
    unfolding round_double_def Let_def q_def using x by (simp only: if_False)
  then show ?thesis .
qed

lemma round_double_div8:
  assumes "\<bar>n\<bar> < 2 ^ 53"
  shows "round_double (of_int n / 8) = of_int n / 8"
proof -
  have h: "(of_int n / 8 :: rat) = of_int n * 2 powi (- 3)"
    by (simp add: power_int_minus_divide)
  show ?thesis unfolding h by (rule round_double_exact [OF assms]) simp
qed

lemma int_true_div_8: "\<bar>n\<bar> < 2 ^ 53 \<Longrightarrow> int_true_div n 8 = Inr (true_div n 8)"
proof -
  assume a: "\<bar>n\<bar> < 2 ^ 53"
  then have "(of_int \<bar>n\<bar> :: rat) < of_int (2 ^ 53)" by (simp only: of_int_less_iff)
  then have "\<bar>of_int n / 8 :: rat\<bar> < 2 ^ 53" by simp
  also have "(2 :: rat) ^ 53 \<le> 2 ^ 1024" by (rule power_increasing) simp_all
  finally have "\<not> (2 :: rat) ^ 1024 \<le> \<bar>of_int n / 8\<bar>" by simp
  then show ?thesis
    by (simp add: int_true_div_def true_div_def round_double_div8 [OF a] Let_def)
qed

text \<open>
  From \<open>2 ^ 53\<close> on the quotient is rounded to a double before \<^verbatim>\<open>round\<close> sees it: for a
  width of \<open>2 ^ 53 + 5\<close> the quotient \<open>2 ^ 50 + 5 / 8\<close> becomes the double \<open>2 ^ 50 + 1 / 2\<close>,
  which \<^verbatim>\<open>round\<close> takes to \<open>2 ^ 50\<close>, and the result is \<open>2 ^ 53\<close>.
\<close>

lemma int_true_div_beyond_2_53:
  "int_true_div 9007199254740997 8 = Inr (2251799813685249 / 2)"
proof -
  have r: "round_double (9007199254740997 / 8) = 2251799813685249 / 2" by code_simp
  have b: "\<not> (2 :: rat) ^ 1024 \<le> \<bar>2251799813685249 / 2\<bar>" by simp
  show ?thesis unfolding int_true_div_def Let_def of_int_numeral r using b by simp
qed

lemma png_dest_resolution_beyond_2_53:
  "source_output_dest_resolution
     (SourceOutputPng c \<lparr>frame_width = 1280, frame_height = 720, total_width = 1280,
        total_height = 720, padding = None\<rparr>)
     \<lparr>width = 9007199254740997, height = 8\<rparr>
   = Inr \<lparr>width = 9007199254740992, height = 8\<rparr>"
proof -
  have h: "int_true_div 8 8 = Inr 1"
    using int_true_div_8 [of 8] by (simp add: true_div_def)
  have p: "py_round (2251799813685249 / 2) = 1125899906842624" by code_simp
  have q: "py_round 1 = 1"
    using py_round_of_int [of 1] by simp
  show ?thesis
    by (simp add: with_frame_dest_resolution_def int_true_div_beyond_2_53 h p q)
qed

text \<open>
  C8. The PNG variant rounds each dimension of the resolution computed by its superclass,
  independently of the other, to a nearest multiple of 8: for dimensions of magnitude
  below \<open>2 ^ 53\<close>, where the floating-point quotient by 8 is exact, the result is a
  multiple of 8 and no multiple of 8 is closer. A computed resolution of 101x202 becomes
  104x200.
\<close>

theorem png_dest_resolution_nearest_multiple_of_8:
  "with_frame_dest_resolution fp src = Inr d \<Longrightarrow>
   \<bar>width d\<bar> < 2 ^ 53 \<Longrightarrow> \<bar>height d\<bar> < 2 ^ 53 \<Longrightarrow>
     (\<exists>w h. source_output_dest_resolution (SourceOutputPng c fp) src
               = Inr \<lparr>width = w, height = h\<rparr>
        \<and> w = py_round (true_div (width d) 8) * 8
        \<and> h = py_round (true_div (height d) 8) * 8
        \<and> 8 dvd w \<and> (\<forall>m. \<bar>w - width d\<bar> \<le> \<bar>8 * m - width d\<bar>)
        \<and> 8 dvd h \<and> (\<forall>m. \<bar>h - height d\<bar> \<le> \<bar>8 * m - height d\<bar>)
        \<and> (width d = 101 \<longrightarrow> w = 104)
        \<and> (height d = 202 \<longrightarrow> h = 200))"
  by (simp add: round8_nearest int_true_div_8) (simp add: py_round_div8)

theorem png_dest_resolution_101x202_witness:
  "source_output_dest_resolution
     (SourceOutputPng \<lparr>encoder = ''pngenc'', parser = ''pngparse''\<rparr>
        \<lparr>frame_width = 1280, frame_height = 720, total_width = 1280, total_height = 720,
         padding = None\<rparr>)
     \<lparr>width = 101, height = 202\<rparr>
   = Inr \<lparr>width = 104, height = 200\<rparr>"
proof -
  have a: "with_frame_dest_resolution
        \<lparr>frame_width = 1280, frame_height = 720, total_width = 1280, total_height = 720,
         padding = None\<rparr> \<lparr>width = 101, height = 202\<rparr> = Inr \<lparr>width = 101, height = 202\<rparr>"
    by (simp add: with_frame_dest_resolution_def)
  have b: "\<bar>width \<lparr>width = 101, height = 202\<rparr>\<bar> < 2 ^ 53"
    "\<bar>height \<lparr>width = 101, height = 202\<rparr>\<bar> < 2 ^ 53"
    by simp_all
  from png_dest_resolution_nearest_multiple_of_8 [OF a b,
      of "\<lparr>encoder = ''pngenc'', parser = ''pngparse''\<rparr>"]
  show ?thesis by auto
qed

section \<open>Reconciliation: loops as list functions\<close>

lemma length_correct_object_ids [simp]: "length (correct_object_ids u ids obs) = length obs"
  by (induction obs arbitrary: ids) simp_all




















section \<open>Admission and release: what each operation changes\<close>

lemma infos_update_info: "infos (update_info r f s) = (infos s)[r := f (infos s ! r)]"
  by (simp add: update_info_def)

lemma free_update_info [simp]: "free_pad_indices (update_info r f s) = free_pad_indices s"
  by (simp add: update_info_def)

lemma sources_update_info [simp]: "sources (update_info r f s) = sources s"
  by (simp add: update_info_def)

lemma idle_update_info [simp]: "idle (update_info r f s) = idle s"
  by (simp add: update_info_def)

lemma queue_update_info [simp]: "queue (update_info r f s) = queue s"
  by (simp add: update_info_def)

lemma cfg_update_info [simp]:
  "source_output (update_info r f s) = source_output s"
  "suppress_eos (update_info r f s) = suppress_eos s"
  "max_parallel_streams (update_info r f s) = max_parallel_streams s"
  by (simp_all add: update_info_def)

lemma update_source_fields [simp]:
  "infos (update_source r s) = infos s"
  "free_pad_indices (update_source r s) = free_pad_indices s"
  "idle (update_source r s) = idle s"
  "queue (update_source r s) = queue s"
  "source_output (update_source r s) = source_output s"
  "max_parallel_streams (update_source r s) = max_parallel_streams s"
  by (simp_all add: update_source_def)

lemma remove_source_fields [simp]:
  "infos (remove_source r s) = infos s"
  "free_pad_indices (remove_source r s) = free_pad_indices s"
  "idle (remove_source r s) = idle s"
  "queue (remove_source r s) = queue s"
  by (simp_all add: remove_source_def)

subsection \<open>Conservation of the slot indices\<close>

lemma map_pad_idx_update_same:
  "pad_idx v = pad_idx (xs ! r) \<Longrightarrow> map pad_idx (xs[r := v]) = map pad_idx xs"
  by (cases "r < length xs") (simp_all add: map_update list_update_same_conv list_update_beyond)

lemma slots_update_info_same:
  "pad_idx (f (infos s ! r)) = pad_idx (infos s ! r) \<Longrightarrow> slots (update_info r f s) = slots s"
  by (simp add: slots_def infos_update_info map_pad_idx_update_same)

lemma slots_cong:
  "map pad_idx (infos s') = map pad_idx (infos s) \<Longrightarrow> free_pad_indices s' = free_pad_indices s \<Longrightarrow>
     slots s' = slots s"
  by (simp add: slots_def)

lemma slots_drop_None:
  "add_mset None (mset (map pad_idx (infos s') @ free_pad_indices s'))
     = mset (map pad_idx (infos s) @ free_pad_indices s) \<Longrightarrow> slots s' = slots s"
proof -
  assume a: "add_mset None (mset (map pad_idx (infos s') @ free_pad_indices s'))
     = mset (map pad_idx (infos s) @ free_pad_indices s)"
  have "slots s = filter_mset (\<lambda>x. x \<noteq> None)
      (add_mset None (mset (map pad_idx (infos s') @ free_pad_indices s')))"
    unfolding slots_def a ..
  also have "\<dots> = slots s'" unfolding slots_def by (simp only: filter_mset_add_mset) simp
  finally show ?thesis by simp
qed

lemma mset_map_pad_idx_update:
  "r < length xs \<Longrightarrow>
     mset (map pad_idx (xs[r := v])) = add_mset (pad_idx v) (mset (map pad_idx xs) - {#pad_idx (xs ! r)#})"
  by (simp add: map_update mset_update del: mset_map)

lemma slots_acquire_pad_idx:
  "r < length (infos s) \<Longrightarrow> slots (acquire_pad_idx r s) = slots s"
proof -
  assume r: "r < length (infos s)"
  show ?thesis
  proof (cases "pad_idx (infos s ! r) \<noteq> None")
    case True
    then show ?thesis by (simp add: acquire_pad_idx_def)
  next
    case False
    show ?thesis
    proof (cases "free_pad_indices s")
      case Nil
      with False show ?thesis by (simp add: acquire_pad_idx_def)
    next
      case (Cons x xs)
      have n: "pad_idx (infos s ! r) = None" using False by simp
      have m: "None \<in># mset (map pad_idx (infos s))"
        using r n by (metis nth_map length_map nth_mem set_mset_mset)
      have i: "infos (acquire_pad_idx r s) = (infos s)[r := (infos s ! r)\<lparr>pad_idx := x\<rparr>]"
        and f: "free_pad_indices (acquire_pad_idx r s) = xs"
        using n Cons by (simp_all add: acquire_pad_idx_def infos_update_info)
      have "add_mset None (mset (map pad_idx (infos (acquire_pad_idx r s)) @ free_pad_indices (acquire_pad_idx r s)))
          = add_mset None (add_mset x (mset (map pad_idx (infos s)) - {#None#}) + mset xs)"
        unfolding i f using r n by (simp add: mset_map_pad_idx_update del: mset_map)
      also have "\<dots> = add_mset x ((mset (map pad_idx (infos s)) - {#None#} + {#None#}) + mset xs)"
        by simp
      also have "mset (map pad_idx (infos s)) - {#None#} + {#None#} = mset (map pad_idx (infos s))"
        using m by simp
      finally have "add_mset None (mset (map pad_idx (infos (acquire_pad_idx r s)) @ free_pad_indices (acquire_pad_idx r s)))
          = mset (map pad_idx (infos s) @ free_pad_indices s)"
        using Cons by simp
      then show ?thesis by (rule slots_drop_None)
    qed
  qed
qed

lemma slots_remove_output_elements:
  "r < length (infos s) \<Longrightarrow> slots (remove_output_elements r s) = slots s"
proof -
  assume r: "r < length (infos s)"
  let ?p = "pad_idx (infos s ! r)"
  let ?s' = "remove_output_elements r s"
  have m: "?p \<in># mset (map pad_idx (infos s))"
    using r by (metis nth_map length_map nth_mem set_mset_mset)
  have i: "map pad_idx (infos ?s') =
      map pad_idx ((infos s)[r := (infos s ! r)\<lparr>pad_idx := None\<rparr>])"
    using r by (simp add: remove_output_elements_def Let_def map_update infos_update_info)
  have f: "free_pad_indices ?s' = free_pad_indices s @ [?p]"
    using r by (simp add: remove_output_elements_def Let_def infos_update_info)
  have "mset (map pad_idx (infos ?s') @ free_pad_indices ?s') =
      add_mset None (mset (map pad_idx (infos s)) - {#?p#}) + (mset (free_pad_indices s) + {#?p#})"
    unfolding i f using r by (simp add: mset_map_pad_idx_update del: mset_map)
  also have "\<dots> = add_mset None ((mset (map pad_idx (infos s)) - {#?p#} + {#?p#}) + mset (free_pad_indices s))"
    by simp
  also have "mset (map pad_idx (infos s)) - {#?p#} + {#?p#} = mset (map pad_idx (infos s))"
    using m by simp
  finally have "add_mset None (mset (map pad_idx (infos s) @ free_pad_indices s))
      = mset (map pad_idx (infos ?s') @ free_pad_indices ?s')"
    by simp
  then have "slots s = slots ?s'" by (rule slots_drop_None)
  then show ?thesis by simp
qed


lemma map_update_info_same:
  "(\<And>x. g (f x) = g x) \<Longrightarrow> map g (infos (update_info r f s)) = map g (infos s)"
proof -
  assume a: "\<And>x. g (f x) = g x"
  show ?thesis
  proof (cases "r < length (infos s)")
    case True
    then show ?thesis by (simp add: infos_update_info map_update a list_update_same_conv)
  next
    case False
    then show ?thesis by (simp add: infos_update_info list_update_beyond)
  qed
qed

lemma length_infos_update_info [simp]: "length (infos (update_info r f s)) = length (infos s)"
  by (simp add: infos_update_info)

lemma add_input_converter_frame:
  "(\<And>x bm. g (x\<lparr>before_muxer := bm\<rparr>) = g x) \<Longrightarrow>
     map g (infos (add_input_converter r accepts s)) = map g (infos s)"
  unfolding add_input_converter_def by (rule map_update_info_same) simp

lemma add_input_converter_fields [simp]:
  "free_pad_indices (add_input_converter r accepts s) = free_pad_indices s"
  "idle (add_input_converter r accepts s) = idle s"
  "queue (add_input_converter r accepts s) = queue s"
  "length (infos (add_input_converter r accepts s)) = length (infos s)"
  by (simp_all add: add_input_converter_def)

lemma add_source_output_fields [simp]:
  "free_pad_indices (snd (add_source_output r s)) = free_pad_indices s"
  "idle (snd (add_source_output r s)) = idle s"
  "queue (snd (add_source_output r s)) = queue s"
  "length (infos (snd (add_source_output r s))) = length (infos s)"
  by (simp_all add: add_source_output_def Let_def split: option.splits sum.splits)

lemma add_source_output_frame:
  assumes "\<And>x ad. g (x\<lparr>after_demuxer := ad\<rparr>) = g x"
    and "\<And>x d. g (x\<lparr>dest_resolution := d\<rparr>) = g x"
  shows "map g (infos (snd (add_source_output r s))) = map g (infos s)"
proof -
  let ?s1 = "update_info r (\<lambda>i. i\<lparr>after_demuxer := after_demuxer i @ [''queue'']\<rparr>) s"
  have 1: "map g (infos ?s1) = map g (infos s)"
    by (rule map_update_info_same) (simp add: assms)
  have 2: "map g (infos (update_info r
              (\<lambda>i. i\<lparr>dest_resolution := Some d,
                     after_demuxer := after_demuxer i @ add_output so @ [''fakesink'']\<rparr>) ?s1))
            = map g (infos ?s1)" for d so
    by (rule map_update_info_same) (simp add: assms)
  show ?thesis
    unfolding add_source_output_def Let_def
    by (simp add: 1 2 split: option.splits sum.splits)
qed

lemma link_source_snd:
  "snd (link_source r res accepts s) =
     (let s1 = update_source r (update_info r (\<lambda>i. i\<lparr>src_resolution := Some res\<rparr>) s)
      in if after_demuxer (infos s1 ! r) = []
         then (case fst (add_source_output r s1) of
                 Some e \<Rightarrow> snd (add_source_output r s1)
               | None \<Rightarrow> add_input_converter r accepts (snd (add_source_output r s1)))
         else add_input_converter r accepts s1)"
  by (simp add: link_source_def Let_def split: prod.splits option.splits)

lemma link_source_fields [simp]:
  "free_pad_indices (snd (link_source r res accepts s)) = free_pad_indices s"
  "idle (snd (link_source r res accepts s)) = idle s"
  "queue (snd (link_source r res accepts s)) = queue s"
  "length (infos (snd (link_source r res accepts s))) = length (infos s)"
  by (simp_all add: link_source_snd Let_def split: option.splits)

lemma link_source_frame:
  assumes "\<And>x ad. g (x\<lparr>after_demuxer := ad\<rparr>) = g x"
    and "\<And>x d. g (x\<lparr>dest_resolution := d\<rparr>) = g x"
    and "\<And>x bm. g (x\<lparr>before_muxer := bm\<rparr>) = g x"
    and "\<And>x sr. g (x\<lparr>src_resolution := sr\<rparr>) = g x"
  shows "map g (infos (snd (link_source r res accepts s))) = map g (infos s)"
proof -
  let ?s1 = "update_source r (update_info r (\<lambda>i. i\<lparr>src_resolution := Some res\<rparr>) s)"
  have 1: "map g (infos (update_info r (\<lambda>i. i\<lparr>src_resolution := Some res\<rparr>) s)) = map g (infos s)"
    by (rule map_update_info_same) (simp add: assms)
  have 2: "map g (infos (add_input_converter r accepts t)) = map g (infos t)" for t
    by (rule add_input_converter_frame) (simp add: assms)
  have 3: "map g (infos (snd (add_source_output r t))) = map g (infos t)" for t
    by (rule add_source_output_frame) (simp_all add: assms)
  show ?thesis
    unfolding link_source_snd Let_def
    by (simp add: 1 2 3 split: option.splits)
qed


lemma remove_input_elements_fields [simp]:
  "free_pad_indices (remove_input_elements r s) = free_pad_indices s"
  "idle (remove_input_elements r s) = idle s"
  "queue (remove_input_elements r s) = queue s"
  "sources (remove_input_elements r s) = sources s"
  "length (infos (remove_input_elements r s)) = length (infos s)"
  by (simp_all add: remove_input_elements_def)

lemma remove_output_elements_fields [simp]:
  "idle (remove_output_elements r s) = idle s"
  "queue (remove_output_elements r s) = queue s"
  "length (infos (remove_output_elements r s)) = length (infos s)"
  by (simp_all add: remove_output_elements_def Let_def)

lemma remove_output_elements_registry:
  "by_source_id (sources (remove_output_elements r s)) sid = Some x \<Longrightarrow>
     by_source_id (sources s) sid = Some x"
  by (simp add: remove_output_elements_def Let_def remove_source_def split: if_splits)

lemma link_source_registry:
  "by_source_id (sources (snd (link_source r res accepts s))) sid = Some x \<Longrightarrow>
     x = r \<or> by_source_id (sources s) sid = Some x"
proof -
  have a: "sources (add_input_converter r accepts t) = sources t" for t
    by (simp add: add_input_converter_def)
  have b: "sources (snd (add_source_output r t)) = sources t" for t
    by (simp add: add_source_output_def Let_def split: option.splits sum.splits)
  assume "by_source_id (sources (snd (link_source r res accepts s))) sid = Some x"
  then show ?thesis
    unfolding link_source_snd Let_def
    by (simp add: a b update_source_def split: if_splits option.splits)
qed

lemma valid_refs_step: "valid_refs s \<Longrightarrow> valid_refs (step e s)"
proof (cases e)
  case (SourceAdded sid)
  assume v: "valid_refs s"
  then show ?thesis unfolding SourceAdded
    by (auto simp: valid_refs_def get_source_def init_source_def less_Suc_eq
        split: option.splits)
next
  case (LockWait r)
  assume v: "valid_refs s"
  then show ?thesis unfolding LockWait by (simp add: valid_refs_def lock_wait_def)
next
  case (AcquirePadIdx r)
  assume v: "valid_refs s"
  then show ?thesis unfolding AcquirePadIdx
    by (simp add: valid_refs_def acquire_pad_idx_def update_info_def split: list.splits)
next
  case (LinkSource r res accepts)
  assume v: "valid_refs s"
  show ?thesis
  proof (cases "r < length (infos s) \<and> pad_idx (infos s ! r) \<noteq> None")
    case True
    with v show ?thesis unfolding LinkSource
      using link_source_registry [of r res accepts s]
      by (simp add: valid_refs_def) blast
  next
    case False
    with v show ?thesis unfolding LinkSource by auto
  qed
next
  case (MuxerSinkPadEos sid)
  assume v: "valid_refs s"
  then show ?thesis unfolding MuxerSinkPadEos
    by (auto simp: valid_refs_def on_muxer_sink_pad_eos_def get_source_def split: option.splits)
next
  case (LastPadEos r)
  assume v: "valid_refs s"
  then show ?thesis unfolding LastPadEos
    by (auto simp: valid_refs_def on_last_pad_eos_def)
next
  case IdleDispatch
  assume v: "valid_refs s"
  show ?thesis
  proof (cases "idle s")
    case Nil
    with v show ?thesis unfolding IdleDispatch by (simp add: idle_dispatch_def)
  next
    case (Cons t ts)
    show ?thesis
    proof (cases t)
      case (RemoveInputElements r)
      with v Cons show ?thesis unfolding IdleDispatch
        by (simp add: idle_dispatch_def valid_refs_def remove_input_elements_def update_info_def)
    next
      case (RemoveOutputElements r)
      with v Cons show ?thesis unfolding IdleDispatch
        using remove_output_elements_registry [of r "s\<lparr>idle := ts\<rparr>"]
        by (simp add: idle_dispatch_def valid_refs_def) blast
    qed
  qed
qed

lemma slots_step: "valid_refs s \<Longrightarrow> slots (step e s) = slots s"
proof (cases e)
  case (SourceAdded sid)
  show ?thesis
  proof (cases "get_source s sid")
    case (Inl err)
    have "add_mset None (mset (map pad_idx (infos s) @ free_pad_indices s))
        = mset (map pad_idx (infos (snd (init_source sid s))) @ free_pad_indices (snd (init_source sid s)))"
      by (simp add: init_source_def)
    then have "slots s = slots (snd (init_source sid s))" by (rule slots_drop_None)
    with Inl show ?thesis unfolding SourceAdded by simp
  next
    case (Inr r)
    then show ?thesis unfolding SourceAdded by simp
  qed
next
  case (LockWait r)
  show ?thesis unfolding LockWait
    by (simp add: lock_wait_def slots_update_info_same)
next
  case (AcquirePadIdx r)
  show ?thesis unfolding AcquirePadIdx by (simp add: slots_acquire_pad_idx)
next
  case (LinkSource r res accepts)
  have "map pad_idx (infos (snd (link_source r res accepts s))) = map pad_idx (infos s)"
    by (rule link_source_frame) simp_all
  then have "slots (snd (link_source r res accepts s)) = slots s"
    by (rule slots_cong) simp
  then show ?thesis unfolding LinkSource by simp
next
  case (MuxerSinkPadEos sid)
  show ?thesis unfolding MuxerSinkPadEos
    by (simp add: on_muxer_sink_pad_eos_def slots_def split: sum.splits)
next
  case (LastPadEos r)
  show ?thesis unfolding LastPadEos by (simp add: on_last_pad_eos_def slots_def)
next
  case IdleDispatch
  assume v: "valid_refs s"
  show ?thesis
  proof (cases "idle s")
    case Nil
    then show ?thesis unfolding IdleDispatch by (simp add: idle_dispatch_def)
  next
    case (Cons t ts)
    have s0: "slots (s\<lparr>idle := ts\<rparr>) = slots s" by (simp add: slots_def)
    show ?thesis
    proof (cases t)
      case (RemoveInputElements r)
      have "slots (remove_input_elements r (s\<lparr>idle := ts\<rparr>)) = slots (s\<lparr>idle := ts\<rparr>)"
        unfolding remove_input_elements_def by (rule slots_update_info_same) simp
      with Cons RemoveInputElements s0 show ?thesis unfolding IdleDispatch
        by (simp add: idle_dispatch_def)
    next
      case (RemoveOutputElements r)
      from v Cons RemoveOutputElements have "r < length (infos (s\<lparr>idle := ts\<rparr>))"
        by (simp add: valid_refs_def)
      then have "slots (remove_output_elements r (s\<lparr>idle := ts\<rparr>)) = slots (s\<lparr>idle := ts\<rparr>)"
        by (rule slots_remove_output_elements)
      with Cons RemoveOutputElements s0 show ?thesis unfolding IdleDispatch
        by (simp add: idle_dispatch_def)
    qed
  qed
qed

lemma run_invariant: "valid_refs s \<Longrightarrow> valid_refs (run evs s) \<and> slots (run evs s) = slots s"
proof (induction evs arbitrary: s)
  case Nil
  then show ?case by simp
next
  case (Cons e evs)
  from Cons.prems have v: "valid_refs (step e s)" by (rule valid_refs_step)
  from Cons.IH [OF v] slots_step [OF Cons.prems, of e] show ?case by simp
qed

lemma new_pipeline_invariant:
  "valid_refs (new_pipeline so suppress n gate)"
  "slots (new_pipeline so suppress n gate) = mset (map Some [0..<n])"
  by (simp_all add: valid_refs_def slots_def new_pipeline_def filter_mset_eq_conv del: mset_map)

lemma distinct_filter_nth_eq:
  "distinct (filter P xs) \<Longrightarrow> i < length xs \<Longrightarrow> j < length xs \<Longrightarrow> xs ! i = xs ! j \<Longrightarrow>
     P (xs ! i) \<Longrightarrow> i = j"
proof (induction xs arbitrary: i j)
  case Nil
  then show ?case by simp
next
  case (Cons x xs)
  show ?case
  proof (cases i)
    case 0
    show ?thesis
    proof (cases j)
      case 0
      with \<open>i = 0\<close> show ?thesis by simp
    next
      case (Suc j')
      with 0 Cons.prems have "x = xs ! j'" "j' < length xs" "P x" by simp_all
      then have "x \<in> set (filter P xs)" by simp
      with Cons.prems(1) \<open>P x\<close> show ?thesis by simp
    qed
  next
    case (Suc i')
    show ?thesis
    proof (cases j)
      case 0
      with Suc Cons.prems have "x = xs ! i'" "i' < length xs" "P x" by simp_all
      then have "x \<in> set (filter P xs)" by simp
      with Cons.prems(1) \<open>P x\<close> show ?thesis by simp
    next
      case (Suc j')
      from Cons.prems(1) have d: "distinct (filter P xs)" by (simp split: if_splits)
      from Cons.IH [OF d, of i' j'] Cons.prems Suc \<open>i = Suc i'\<close> show ?thesis by simp
    qed
  qed
qed

lemma run_new_pipeline_distinct:
  "distinct (filter (\<lambda>x. x \<noteq> None)
     (map pad_idx (infos (run evs (new_pipeline so suppress n gate)))
      @ free_pad_indices (run evs (new_pipeline so suppress n gate))))"
proof -
  let ?s = "run evs (new_pipeline so suppress n gate)"
  let ?l = "filter (\<lambda>x. x \<noteq> None) (map pad_idx (infos ?s) @ free_pad_indices ?s)"
  have "slots ?s = slots (new_pipeline so suppress n gate)"
    using run_invariant [OF new_pipeline_invariant(1), of evs so suppress n gate] by (rule conjunct2)
  then have "slots ?s = mset (map Some [0..<n])"
    by (simp only: new_pipeline_invariant(2))
  then have m: "mset ?l = mset (map Some [0..<n])"
    unfolding slots_def by (simp only: mset_filter)
  have d: "distinct (map Some [0..<n])" by (simp add: distinct_map)
  from mset_eq_imp_distinct_iff [OF m] d show ?thesis by (rule iffD2)
qed

text \<open>
  C2. After any interleaving of the events of admission and release, started from a new
  pipeline: no two stream states hold the same slot index, an index held by a stream
  state is not in the free list, and no index is twice in the free list. An index popped
  from the free list therefore stays with its stream state alone until
  \<^verbatim>\<open>_remove_output_elements\<close> appends it to the free list again.
\<close>

theorem no_double_assignment:
  "(\<forall>r1 r2 i. r1 < length (infos (run evs (new_pipeline so suppress n gate))) \<and>
       r2 < length (infos (run evs (new_pipeline so suppress n gate))) \<and>
       pad_idx (infos (run evs (new_pipeline so suppress n gate)) ! r1) = Some i \<and>
       pad_idx (infos (run evs (new_pipeline so suppress n gate)) ! r2) = Some i \<longrightarrow> r1 = r2) \<and>
   (\<forall>r i. r < length (infos (run evs (new_pipeline so suppress n gate))) \<and>
       pad_idx (infos (run evs (new_pipeline so suppress n gate)) ! r) = Some i \<longrightarrow>
       Some i \<notin> set (free_pad_indices (run evs (new_pipeline so suppress n gate)))) \<and>
   distinct (filter (\<lambda>x. x \<noteq> None) (free_pad_indices (run evs (new_pipeline so suppress n gate))))"
proof -
  let ?s = "run evs (new_pipeline so suppress n gate)"
  let ?P = "\<lambda>x::nat option. x \<noteq> None"
  have d: "distinct (filter ?P (map pad_idx (infos ?s) @ free_pad_indices ?s))"
    by (rule run_new_pipeline_distinct)
  then have dA: "distinct (filter ?P (map pad_idx (infos ?s)))"
    and dB: "distinct (filter ?P (free_pad_indices ?s))"
    and dis: "set (filter ?P (map pad_idx (infos ?s))) \<inter> set (filter ?P (free_pad_indices ?s)) = {}"
    by (simp_all only: filter_append distinct_append)
  have 1: "r1 = r2" if "r1 < length (infos ?s)" "r2 < length (infos ?s)"
      "pad_idx (infos ?s ! r1) = Some i" "pad_idx (infos ?s ! r2) = Some i" for r1 r2 i
    using distinct_filter_nth_eq [OF dA, of r1 r2] that by simp
  have 2: "Some i \<notin> set (free_pad_indices ?s)" if "r < length (infos ?s)"
      "pad_idx (infos ?s ! r) = Some i" for r i
  proof
    assume "Some i \<in> set (free_pad_indices ?s)"
    then have b: "Some i \<in> set (filter ?P (free_pad_indices ?s))" by simp
    from that have "Some i \<in> set (map pad_idx (infos ?s))"
      by (metis nth_map length_map nth_mem)
    then have "Some i \<in> set (filter ?P (map pad_idx (infos ?s)))" by simp
    with b dis show False by blast
  qed
  from 1 2 dB show ?thesis by blast
qed

theorem no_double_assignment_witness:
  "pad_idx (infos (run example_admission (example_pipeline False)) ! 0) = Some 0 \<and>
   Some 0 \<notin> set (free_pad_indices (run example_admission (example_pipeline False)))"
proof -
  have a: "0 < length (infos (run example_admission (example_pipeline False)))"
    and b: "pad_idx (infos (run example_admission (example_pipeline False)) ! 0) = Some 0"
    by (simp_all add: example_admission_def example_pipeline_def new_pipeline_def get_source_def
      init_source_def acquire_pad_idx_def update_info_def link_source_def update_source_def
      add_source_output_def add_input_converter_def Let_def upt_rec)
  from no_double_assignment [of example_admission SourceOutputOnlyMeta True 2 False,
      folded example_pipeline_def] a b
  show ?thesis by blast
qed

subsection \<open>The two EOS paths\<close>

lemmas example_defs = example_admission_def example_pipeline_def new_pipeline_def get_source_def
      init_source_def acquire_pad_idx_def update_info_def link_source_def update_source_def
      add_source_output_def add_input_converter_def Let_def upt_rec

lemma nth_infos_update_info:
  "r < length (infos s) \<Longrightarrow>
     infos (update_info r' f s) ! r = (if r = r' then f (infos s ! r) else infos s ! r)"
  by (auto simp: infos_update_info)

lemma remove_output_elements_info:
  "r < length (infos s) \<Longrightarrow>
     infos (remove_output_elements r s) =
       (infos s)[r := (infos s ! r)\<lparr>after_demuxer := [], pad_idx := None, lock := True\<rparr>]"
  by (simp add: remove_output_elements_def Let_def infos_update_info)

lemma remove_output_elements_free:
  "r < length (infos s) \<Longrightarrow>
     free_pad_indices (remove_output_elements r s) = free_pad_indices s @ [pad_idx (infos s ! r)]"
  by (simp add: remove_output_elements_def Let_def infos_update_info)

lemma remove_input_elements_info:
  "infos (remove_input_elements r s) = (infos s)[r := (infos s ! r)\<lparr>before_muxer := []\<rparr>]"
  by (simp add: remove_input_elements_def infos_update_info)

lemma get_source_remove_output_elements:
  "get_source (remove_output_elements r s) sid = Inr x \<Longrightarrow> get_source s sid = Inr x"
  using remove_output_elements_registry [of r s sid x]
  by (simp add: get_source_def split: option.splits)

lemma get_source_remove_output_elements_self:
  "r < length (infos s) \<Longrightarrow>
     get_source (remove_output_elements r s) (source_id (infos s ! r)) = Inl KeyError"
  by (simp add: remove_output_elements_def Let_def remove_source_def get_source_def
      nth_infos_update_info)

text \<open>The downstream EOS, taken alone from a quiet main loop.\<close>

lemma run_last_pad_eos:
  assumes r: "r < length (infos s)" and i: "idle s = []"
  shows "infos (run [LastPadEos r, IdleDispatch] s) =
           (infos s)[r := (infos s ! r)\<lparr>after_demuxer := [], pad_idx := None, lock := True\<rparr>]"
    and "free_pad_indices (run [LastPadEos r, IdleDispatch] s) =
           free_pad_indices s @ [pad_idx (infos s ! r)]"
    and "idle (run [LastPadEos r, IdleDispatch] s) = []"
    and "get_source (run [LastPadEos r, IdleDispatch] s) sid = Inr x \<Longrightarrow> get_source s sid = Inr x"
    and "get_source (run [LastPadEos r, IdleDispatch] s) (source_id (infos s ! r)) = Inl KeyError"
proof -
  let ?t = "s\<lparr>idle := idle s @ [RemoveOutputElements r], queue := queue s @ [source_id (infos s ! r)]\<rparr>\<lparr>idle := []\<rparr>"
  have e: "run [LastPadEos r, IdleDispatch] s = remove_output_elements r ?t"
    using r i by (simp add: on_last_pad_eos_def idle_dispatch_def)
  have t: "infos ?t = infos s" "free_pad_indices ?t = free_pad_indices s" "idle ?t = []"
    "get_source ?t sid = get_source s sid"
    by (simp_all add: get_source_def)
  show "infos (run [LastPadEos r, IdleDispatch] s) =
           (infos s)[r := (infos s ! r)\<lparr>after_demuxer := [], pad_idx := None, lock := True\<rparr>]"
    unfolding e using r remove_output_elements_info [of r ?t] by (simp only: t)
  show "free_pad_indices (run [LastPadEos r, IdleDispatch] s) =
           free_pad_indices s @ [pad_idx (infos s ! r)]"
    unfolding e using r remove_output_elements_free [of r ?t] by (simp only: t)
  show "idle (run [LastPadEos r, IdleDispatch] s) = []"
    unfolding e by (simp only: remove_output_elements_fields t)
  show "get_source (run [LastPadEos r, IdleDispatch] s) sid = Inr x \<Longrightarrow> get_source s sid = Inr x"
    unfolding e using get_source_remove_output_elements [of r ?t sid x] by (simp only: t)
  show "get_source (run [LastPadEos r, IdleDispatch] s) (source_id (infos s ! r)) = Inl KeyError"
    unfolding e using r get_source_remove_output_elements_self [of r ?t] by (simp only: t)
qed

text \<open>The upstream EOS, taken alone from a quiet main loop.\<close>

lemma run_muxer_sink_pad_eos:
  assumes i: "idle s = []" and g: "get_source s sid = Inr r"
  shows "infos (run [MuxerSinkPadEos sid, IdleDispatch] s) =
           (infos s)[r := (infos s ! r)\<lparr>before_muxer := []\<rparr>]"
    and "free_pad_indices (run [MuxerSinkPadEos sid, IdleDispatch] s) = free_pad_indices s"
    and "idle (run [MuxerSinkPadEos sid, IdleDispatch] s) = []"
    and "sources (run [MuxerSinkPadEos sid, IdleDispatch] s) = sources s"
proof -
  let ?t = "s\<lparr>idle := idle s @ [RemoveInputElements r]\<rparr>\<lparr>idle := []\<rparr>"
  have e: "run [MuxerSinkPadEos sid, IdleDispatch] s = remove_input_elements r ?t"
    using i g by (simp add: on_muxer_sink_pad_eos_def idle_dispatch_def)
  have t: "infos ?t = infos s" "free_pad_indices ?t = free_pad_indices s" "idle ?t = []"
    "sources ?t = sources s"
    by simp_all
  show "infos (run [MuxerSinkPadEos sid, IdleDispatch] s) =
           (infos s)[r := (infos s ! r)\<lparr>before_muxer := []\<rparr>]"
    unfolding e by (simp only: remove_input_elements_info t)
  show "free_pad_indices (run [MuxerSinkPadEos sid, IdleDispatch] s) = free_pad_indices s"
    unfolding e by (simp only: remove_input_elements_fields t)
  show "idle (run [MuxerSinkPadEos sid, IdleDispatch] s) = []"
    unfolding e by (simp only: remove_input_elements_fields t)
  show "sources (run [MuxerSinkPadEos sid, IdleDispatch] s) = sources s"
    unfolding e by (simp only: remove_input_elements_fields t)
qed

text \<open>An upstream EOS whose stream has no registry entry raises \<^verbatim>\<open>KeyError\<close> in the probe.\<close>

lemma run_muxer_sink_pad_eos_unknown:
  assumes i: "idle s = []" and g: "get_source s sid = Inl e"
  shows "run [MuxerSinkPadEos sid, IdleDispatch] s = s"
  using i g by (simp add: on_muxer_sink_pad_eos_def idle_dispatch_def)

lemma run_append: "run (xs @ ys) s = run ys (run xs s)"
  by (induction xs arbitrary: s) simp_all

lemma example_active:
  "infos (run example_admission (example_pipeline g)) =
     [\<lparr>source_id = ''cam'', pad_idx = Some 0, src_resolution = Some \<lparr>width = 640, height = 480\<rparr>,
       dest_resolution = Some \<lparr>width = 640, height = 480\<rparr>,
       before_muxer = [''nvvideoconvert'', ''capsfilter''],
       after_demuxer = [''queue'', ''fakesink''], lock = g\<rparr>]"
  "free_pad_indices (run example_admission (example_pipeline g)) = [Some 1]"
  "idle (run example_admission (example_pipeline g)) = []"
  "get_source (run example_admission (example_pipeline g)) ''cam'' = Inr 0"
  "source_id (infos (run example_admission (example_pipeline g)) ! 0) = ''cam''"
  by (simp_all add: example_defs)

text \<open>
  C1 (amended). For a stream that holds slot \<open>i\<close> and has its registry entry, from a quiet
  main loop: the downstream EOS alone performs the whole release (post-batch elements
  removed, the registry entry removed, \<open>i\<close> appended to the free list, \<^verbatim>\<open>pad_idx\<close> cleared,
  lock set) while the pre-batch elements stay as they are; nothing is buffered. The
  upstream EOS, arriving while the stream has its registry entry, removes the pre-batch
  elements and releases nothing. When the upstream EOS arrives after the downstream
  EOS, the stream has no registry entry any more: the probe raises \<^verbatim>\<open>KeyError\<close>, nothing
  changes and the pre-batch elements stay. In both orders of the two signals the stream
  ends released and the free list has grown by the one entry \<open>i\<close>.
\<close>

theorem released_by_downstream_eos:
  "r < length (infos s) \<Longrightarrow> pad_idx (infos s ! r) = Some i \<Longrightarrow> idle s = [] \<Longrightarrow>
   get_source s sid = Inr r \<Longrightarrow> source_id (infos s ! r) = sid \<Longrightarrow>
     (let d = run [LastPadEos r, IdleDispatch] s in
        pad_idx (infos d ! r) = None \<and> lock (infos d ! r) \<and> after_demuxer (infos d ! r) = [] \<and>
        before_muxer (infos d ! r) = before_muxer (infos s ! r) \<and>
        free_pad_indices d = free_pad_indices s @ [Some i] \<and>
        get_source d sid = Inl KeyError) \<and>
     (let u = run [MuxerSinkPadEos sid, IdleDispatch] s in
        pad_idx (infos u ! r) = Some i \<and> lock (infos u ! r) = lock (infos s ! r) \<and>
        after_demuxer (infos u ! r) = after_demuxer (infos s ! r) \<and>
        before_muxer (infos u ! r) = [] \<and>
        free_pad_indices u = free_pad_indices s) \<and>
     (let f = run [MuxerSinkPadEos sid, IdleDispatch, LastPadEos r, IdleDispatch] s in
        pad_idx (infos f ! r) = None \<and> lock (infos f ! r) \<and> after_demuxer (infos f ! r) = [] \<and>
        before_muxer (infos f ! r) = [] \<and>
        free_pad_indices f = free_pad_indices s @ [Some i]) \<and>
     (let d = run [LastPadEos r, IdleDispatch] s;
          f = run [LastPadEos r, IdleDispatch, MuxerSinkPadEos sid, IdleDispatch] s in
        on_muxer_sink_pad_eos sid d = Inl KeyError \<and> f = d \<and>
        pad_idx (infos f ! r) = None \<and> lock (infos f ! r) \<and> after_demuxer (infos f ! r) = [] \<and>
        before_muxer (infos f ! r) = before_muxer (infos s ! r) \<and>
        free_pad_indices f = free_pad_indices s @ [Some i])"
proof -
  assume r: "r < length (infos s)" and p: "pad_idx (infos s ! r) = Some i" and i: "idle s = []"
    and g: "get_source s sid = Inr r" and n: "source_id (infos s ! r) = sid"
  let ?d = "run [LastPadEos r, IdleDispatch] s"
  let ?u = "run [MuxerSinkPadEos sid, IdleDispatch] s"
  note d = run_last_pad_eos [OF r i]
  note u = run_muxer_sink_pad_eos [OF i g]
  have k: "get_source ?d sid = Inl KeyError" using d(5) unfolding n .
  have D: "pad_idx (infos ?d ! r) = None \<and> lock (infos ?d ! r) \<and> after_demuxer (infos ?d ! r) = [] \<and>
        before_muxer (infos ?d ! r) = before_muxer (infos s ! r) \<and>
        free_pad_indices ?d = free_pad_indices s @ [Some i]"
    unfolding d(1) d(2) using r p by simp
  have U: "pad_idx (infos ?u ! r) = Some i \<and> lock (infos ?u ! r) = lock (infos s ! r) \<and>
        after_demuxer (infos ?u ! r) = after_demuxer (infos s ! r) \<and>
        before_muxer (infos ?u ! r) = [] \<and>
        free_pad_indices ?u = free_pad_indices s"
    unfolding u(1) u(2) using r p by simp
  have ru: "r < length (infos ?u)" unfolding u(1) using r by simp
  note ud = run_last_pad_eos [OF ru u(3)]
  have eud: "run [MuxerSinkPadEos sid, IdleDispatch, LastPadEos r, IdleDispatch] s
      = run [LastPadEos r, IdleDispatch] ?u"
    using run_append [of "[MuxerSinkPadEos sid, IdleDispatch]" "[LastPadEos r, IdleDispatch]" s]
    by simp
  have UD: "pad_idx (infos (run [LastPadEos r, IdleDispatch] ?u) ! r) = None \<and>
        lock (infos (run [LastPadEos r, IdleDispatch] ?u) ! r) \<and>
        after_demuxer (infos (run [LastPadEos r, IdleDispatch] ?u) ! r) = [] \<and>
        before_muxer (infos (run [LastPadEos r, IdleDispatch] ?u) ! r) = [] \<and>
        free_pad_indices (run [LastPadEos r, IdleDispatch] ?u) = free_pad_indices s @ [Some i]"
    unfolding ud(1) ud(2) using ru U by simp
  have edu: "run [LastPadEos r, IdleDispatch, MuxerSinkPadEos sid, IdleDispatch] s
      = run [MuxerSinkPadEos sid, IdleDispatch] ?d"
    using run_append [of "[LastPadEos r, IdleDispatch]" "[MuxerSinkPadEos sid, IdleDispatch]" s]
    by simp
  have E: "on_muxer_sink_pad_eos sid ?d = Inl KeyError"
    by (simp only: on_muxer_sink_pad_eos_def k sum.case)
  have F: "run [MuxerSinkPadEos sid, IdleDispatch] ?d = ?d"
    by (rule run_muxer_sink_pad_eos_unknown [OF d(3) k])
  from D U UD E F k show ?thesis
    unfolding Let_def eud edu by simp
qed

theorem released_by_downstream_eos_witness:
  "free_pad_indices (run [MuxerSinkPadEos ''cam'', IdleDispatch, LastPadEos 0, IdleDispatch]
       (run example_admission (example_pipeline False))) = [Some 1, Some 0] \<and>
   before_muxer (infos (run [MuxerSinkPadEos ''cam'', IdleDispatch, LastPadEos 0, IdleDispatch]
       (run example_admission (example_pipeline False))) ! 0) = [] \<and>
   free_pad_indices (run [LastPadEos 0, IdleDispatch, MuxerSinkPadEos ''cam'', IdleDispatch]
       (run example_admission (example_pipeline False))) = [Some 1, Some 0] \<and>
   before_muxer (infos (run [LastPadEos 0, IdleDispatch, MuxerSinkPadEos ''cam'', IdleDispatch]
       (run example_admission (example_pipeline False))) ! 0) = [''nvvideoconvert'', ''capsfilter''] \<and>
   on_muxer_sink_pad_eos ''cam'' (run [LastPadEos 0, IdleDispatch]
       (run example_admission (example_pipeline False))) = Inl KeyError \<and>
   pad_idx (infos (run [MuxerSinkPadEos ''cam'', IdleDispatch]
       (run example_admission (example_pipeline False))) ! 0) = Some 0"
proof -
  have a: "0 < length (infos (run example_admission (example_pipeline False)))"
    and b: "pad_idx (infos (run example_admission (example_pipeline False)) ! 0) = Some 0"
    and c: "before_muxer (infos (run example_admission (example_pipeline False)) ! 0)
              = [''nvvideoconvert'', ''capsfilter'']"
    by (simp_all add: example_active)
  from released_by_downstream_eos [OF a b example_active(3) example_active(4) example_active(5)]
  show ?thesis unfolding Let_def example_active(2) c by (simp del: run.simps)
qed

text \<open>
  The claim as stated fails: the stream \<open>cam\<close> is released by its downstream EOS while no
  upstream EOS has arrived and its pre-batch elements are still in place.
\<close>

theorem released_without_upstream_eos_counterexample:
  "pad_idx (infos (run example_admission (example_pipeline False)) ! 0) = Some 0 \<and>
   pad_idx (infos (run [LastPadEos 0, IdleDispatch]
       (run example_admission (example_pipeline False))) ! 0) = None \<and>
   lock (infos (run [LastPadEos 0, IdleDispatch]
       (run example_admission (example_pipeline False))) ! 0) \<and>
   after_demuxer (infos (run [LastPadEos 0, IdleDispatch]
       (run example_admission (example_pipeline False))) ! 0) = [] \<and>
   free_pad_indices (run [LastPadEos 0, IdleDispatch]
       (run example_admission (example_pipeline False))) = [Some 1, Some 0] \<and>
   before_muxer (infos (run [LastPadEos 0, IdleDispatch]
       (run example_admission (example_pipeline False))) ! 0) = [''nvvideoconvert'', ''capsfilter'']"
proof -
  have a: "0 < length (infos (run example_admission (example_pipeline False)))"
    by (simp add: example_active)
  show ?thesis
    unfolding run_last_pad_eos(1,2) [OF a example_active(3)]
    by (simp add: example_active)
qed

subsection \<open>The release gate\<close>

lemma map_eq_nth: "map g xs = map g ys \<Longrightarrow> r < length ys \<Longrightarrow> g (xs ! r) = g (ys ! r)"
  by (metis length_map nth_map)

lemma lock_wait_lock:
  "r < length (infos s) \<Longrightarrow> lock (infos (lock_wait r' s) ! r) \<Longrightarrow> lock (infos s ! r)"
  by (simp add: lock_wait_def nth_infos_update_info split: if_splits)

lemma acquire_pad_idx_lock:
  "map lock (infos (acquire_pad_idx r' s)) = map lock (infos s)"
proof -
  have "map lock (infos (update_info r' (\<lambda>i. i\<lparr>pad_idx := x\<rparr>) t)) = map lock (infos t)" for x t
    by (rule map_update_info_same) simp
  then show ?thesis
    by (simp add: acquire_pad_idx_def split: list.splits)
qed

lemma step_muxer_sink_pad_eos:
  "step (MuxerSinkPadEos sid) s =
     (case get_source s sid of
        Inl e \<Rightarrow> s
      | Inr r \<Rightarrow> s\<lparr>idle := idle s @ [RemoveInputElements r]\<rparr>)"
  by (simp add: on_muxer_sink_pad_eos_def split: sum.splits)

lemma step_idle_dispatch_Cons:
  "idle s = t # ts \<Longrightarrow> step IdleDispatch s = run_task t (s\<lparr>idle := ts\<rparr>)"
  by (simp add: idle_dispatch_def)

lemma infos_run_lock_wait:
  "infos (run [LockWait r] s) =
     (if r < length (infos s) \<and> lock (infos s ! r)
      then (infos s)[r := (infos s ! r)\<lparr>lock := False\<rparr>] else infos s)"
  by (simp add: lock_wait_def infos_update_info)

lemma gate_set_step:
  assumes r: "r < length (infos s)" and n: "\<not> lock (infos s ! r)"
    and l: "lock (infos (step e s) ! r)"
  shows "e = IdleDispatch \<and> (\<exists>ts. idle s = RemoveOutputElements r # ts) \<and>
         after_demuxer (infos (step e s) ! r) = [] \<and>
         before_muxer (infos (step e s) ! r) = before_muxer (infos s ! r)"
proof (cases e)
  case (SourceAdded sid)
  with r n l show ?thesis
    by (simp add: init_source_def nth_append split: sum.splits)
next
  case (LockWait r')
  with r n l lock_wait_lock [of r s r'] show ?thesis by (simp split: if_splits)
next
  case (AcquirePadIdx r')
  from map_eq_nth [OF acquire_pad_idx_lock r, of r'] AcquirePadIdx r n l
  show ?thesis by (simp split: if_splits)
next
  case (LinkSource r' res accepts)
  have "map lock (infos (snd (link_source r' res accepts s))) = map lock (infos s)"
    by (rule link_source_frame) simp_all
  from map_eq_nth [OF this r] LinkSource r n l
  show ?thesis by (simp split: if_splits)
next
  case (MuxerSinkPadEos sid)
  have "infos (step e s) = infos s"
    unfolding MuxerSinkPadEos step_muxer_sink_pad_eos by (simp split: sum.splits)
  with n l show ?thesis by simp
next
  case (LastPadEos r')
  with r n l show ?thesis by (simp add: on_last_pad_eos_def split: if_splits)
next
  case IdleDispatch
  show ?thesis
  proof (cases "idle s")
    case Nil
    with IdleDispatch n l show ?thesis by (simp add: idle_dispatch_def)
  next
    case (Cons t ts)
    show ?thesis
    proof (cases t)
      case (RemoveInputElements r')
      have "map lock (infos (remove_input_elements r' (s\<lparr>idle := ts\<rparr>)))
          = map lock (infos (s\<lparr>idle := ts\<rparr>))"
        unfolding remove_input_elements_def by (rule map_update_info_same) simp
      then have "map lock (infos (step e s)) = map lock (infos s)"
        using IdleDispatch Cons RemoveInputElements by (simp add: idle_dispatch_def)
      from map_eq_nth [OF this r] n l show ?thesis by simp
    next
      case (RemoveOutputElements r')
      show ?thesis
      proof (cases "r' < length (infos s)")
        case True
        then have rt: "r' < length (infos (s\<lparr>idle := ts\<rparr>))" by simp
        show ?thesis
        proof (cases "r' = r")
          case True
          with IdleDispatch Cons RemoveOutputElements r
          show ?thesis
            by (simp add: idle_dispatch_def remove_output_elements_info)
        next
          case False
          with IdleDispatch Cons RemoveOutputElements r n l
          show ?thesis
            by (simp add: idle_dispatch_def remove_output_elements_info [OF rt])
        qed
      next
        case False
        then have "infos (remove_output_elements r' (s\<lparr>idle := ts\<rparr>)) = infos s"
          by (simp add: remove_output_elements_def Let_def infos_update_info list_update_beyond)
        with IdleDispatch Cons RemoveOutputElements n l show ?thesis
          by (simp add: idle_dispatch_def)
      qed
    qed
  qed
qed

text \<open>
  C4 (amended). In any step of any interleaving the gate of a stream goes from cleared to
  set only when the main loop runs \<^verbatim>\<open>_remove_output_elements\<close> for that stream, and then
  no post-batch elements remain; the pre-batch elements are not looked at and stay as
  they are. \<^verbatim>\<open>_remove_input_elements\<close> empties the pre-batch list and leaves the gate and
  the post-batch list as they are.
\<close>

theorem gate_set_by_output_teardown_only:
  "r < length (infos s) \<Longrightarrow>
     (\<not> lock (infos s ! r) \<and> lock (infos (step e s) ! r) \<longrightarrow>
        e = IdleDispatch \<and> (\<exists>ts. idle s = RemoveOutputElements r # ts) \<and>
        after_demuxer (infos (step e s) ! r) = [] \<and>
        before_muxer (infos (step e s) ! r) = before_muxer (infos s ! r)) \<and>
     lock (infos (remove_output_elements r s) ! r) \<and>
     after_demuxer (infos (remove_output_elements r s) ! r) = [] \<and>
     before_muxer (infos (remove_output_elements r s) ! r) = before_muxer (infos s ! r) \<and>
     before_muxer (infos (remove_input_elements r s) ! r) = [] \<and>
     lock (infos (remove_input_elements r s) ! r) = lock (infos s ! r) \<and>
     after_demuxer (infos (remove_input_elements r s) ! r) = after_demuxer (infos s ! r)"
proof -
  assume r: "r < length (infos s)"
  have 1: "\<not> lock (infos s ! r) \<and> lock (infos (step e s) ! r) \<longrightarrow>
        e = IdleDispatch \<and> (\<exists>ts. idle s = RemoveOutputElements r # ts) \<and>
        after_demuxer (infos (step e s) ! r) = [] \<and>
        before_muxer (infos (step e s) ! r) = before_muxer (infos s ! r)"
    using gate_set_step [OF r] by blast
  have 2: "lock (infos (remove_output_elements r s) ! r) \<and>
     after_demuxer (infos (remove_output_elements r s) ! r) = [] \<and>
     before_muxer (infos (remove_output_elements r s) ! r) = before_muxer (infos s ! r)"
    using r by (simp add: remove_output_elements_info)
  have 3: "before_muxer (infos (remove_input_elements r s) ! r) = [] \<and>
     lock (infos (remove_input_elements r s) ! r) = lock (infos s ! r) \<and>
     after_demuxer (infos (remove_input_elements r s) ! r) = after_demuxer (infos s ! r)"
    using r by (simp add: remove_input_elements_info)
  from 1 2 3 show ?thesis by blast
qed

theorem gate_set_by_output_teardown_only_witness:
  "step IdleDispatch (step (LastPadEos 0) (run example_admission (example_pipeline False)))
     = remove_output_elements 0
         ((step (LastPadEos 0) (run example_admission (example_pipeline False)))\<lparr>idle := []\<rparr>) \<and>
   after_demuxer (infos (step IdleDispatch
       (step (LastPadEos 0) (run example_admission (example_pipeline False)))) ! 0) = [] \<and>
   before_muxer (infos (step IdleDispatch
       (step (LastPadEos 0) (run example_admission (example_pipeline False)))) ! 0)
     = [''nvvideoconvert'', ''capsfilter'']"
proof -
  let ?t = "step (LastPadEos 0) (run example_admission (example_pipeline False))"
  have t: "infos ?t = infos (run example_admission (example_pipeline False))"
    "idle ?t = [RemoveOutputElements 0]"
    by (simp_all add: example_active on_last_pad_eos_def)
  have a: "0 < length (infos ?t)" and b: "\<not> lock (infos ?t ! 0)"
    unfolding t by (simp_all add: example_active)
  have c: "step IdleDispatch ?t = remove_output_elements 0 (?t\<lparr>idle := []\<rparr>)"
    using step_idle_dispatch_Cons [OF t(2)] by (simp only: run_task.simps)
  have d: "lock (infos (step IdleDispatch ?t) ! 0)"
    unfolding c using a by (simp add: remove_output_elements_info)
  from gate_set_by_output_teardown_only [OF a, of IdleDispatch] b d
  have "after_demuxer (infos (step IdleDispatch ?t) ! 0) = [] \<and>
        before_muxer (infos (step IdleDispatch ?t) ! 0) = before_muxer (infos ?t ! 0)"
    by blast
  with c show ?thesis by (simp add: t example_active del: step.simps)
qed

text \<open>
  The claim as stated fails in both directions: after the downstream EOS alone the gate
  is set while pre-batch elements remain; and after both signals, when a waiting
  re-attachment has seen the gate set and cleared it, no element remains and the gate is
  not set.
\<close>

theorem gate_not_equivalent_to_no_elements_counterexample:
  "lock (infos (run [LastPadEos 0, IdleDispatch]
       (run example_admission (example_pipeline False))) ! 0) \<and>
   before_muxer (infos (run [LastPadEos 0, IdleDispatch]
       (run example_admission (example_pipeline False))) ! 0) \<noteq> [] \<and>
   \<not> lock (infos (run [LockWait 0]
       (run [LastPadEos 0, IdleDispatch]
         (run [MuxerSinkPadEos ''cam'', IdleDispatch]
           (run example_admission (example_pipeline False))))) ! 0) \<and>
   before_muxer (infos (run [LockWait 0]
       (run [LastPadEos 0, IdleDispatch]
         (run [MuxerSinkPadEos ''cam'', IdleDispatch]
           (run example_admission (example_pipeline False))))) ! 0) = [] \<and>
   after_demuxer (infos (run [LockWait 0]
       (run [LastPadEos 0, IdleDispatch]
         (run [MuxerSinkPadEos ''cam'', IdleDispatch]
           (run example_admission (example_pipeline False))))) ! 0) = []"
proof -
  let ?a = "run example_admission (example_pipeline False)"
  let ?u = "run [MuxerSinkPadEos ''cam'', IdleDispatch] ?a"
  let ?f = "run [LastPadEos 0, IdleDispatch] ?u"
  have a: "0 < length (infos ?a)" by (simp add: example_active)
  note d = run_last_pad_eos(1) [OF a example_active(3)]
  note u = run_muxer_sink_pad_eos [OF example_active(3) example_active(4)]
  have ru: "0 < length (infos ?u)" unfolding u(1) using a by simp
  note f = run_last_pad_eos(1) [OF ru u(3)]
  have 1: "lock (infos (run [LastPadEos 0, IdleDispatch] ?a) ! 0) \<and>
      before_muxer (infos (run [LastPadEos 0, IdleDispatch] ?a) ! 0) \<noteq> []"
    unfolding d by (simp add: example_active)
  have fi: "infos ?f = [(infos ?a ! 0)\<lparr>before_muxer := [], after_demuxer := [], pad_idx := None,
      lock := True\<rparr>]"
    unfolding f u(1) by (simp add: example_active)
  have 2: "infos (run [LockWait 0] ?f) = [(infos ?a ! 0)\<lparr>before_muxer := [], after_demuxer := [],
      pad_idx := None, lock := False\<rparr>]"
    unfolding infos_run_lock_wait fi by simp
  from 1 show ?thesis unfolding 2 by simp
qed

subsection \<open>Waiting for the gate\<close>



lemma wait_release_SomeD:
  "wait_release r env s = Some (s', env') \<Longrightarrow>
     \<exists>k\<le>length env. lock (infos (run (concat (take k env)) s) ! r) \<and>
        (\<forall>j<k. \<not> lock (infos (run (concat (take j env)) s) ! r)) \<and>
        s' = run (concat (take k env)) s \<and> env' = drop k env"
proof (induction env arbitrary: s)
  case Nil
  then show ?case by (simp split: if_splits)
next
  case (Cons evs env)
  show ?case
  proof (cases "lock (infos s ! r)")
    case True
    with Cons.prems show ?thesis by (intro exI [of _ 0]) simp
  next
    case False
    with Cons.prems have "wait_release r env (run evs s) = Some (s', env')" by simp
    from Cons.IH [OF this] obtain k where k: "k \<le> length env"
      "lock (infos (run (concat (take k env)) (run evs s)) ! r)"
      "\<forall>j<k. \<not> lock (infos (run (concat (take j env)) (run evs s)) ! r)"
      "s' = run (concat (take k env)) (run evs s)" "env' = drop k env"
      by blast
    have "\<forall>j<Suc k. \<not> lock (infos (run (concat (take j (evs # env))) s) ! r)"
    proof (intro allI impI)
      fix j assume "j < Suc k"
      with False k(3) show "\<not> lock (infos (run (concat (take j (evs # env))) s) ! r)"
        by (cases j) (simp_all add: run_append)
    qed
    with k show ?thesis
      by (intro exI [of _ "Suc k"]) (simp add: run_append)
  qed
qed





subsection \<open>\<^verbatim>\<open>on_source_added\<close> within the interleavings\<close>

text \<open>
  What \<^verbatim>\<open>on_source_added\<close> does to the pipeline is a sequence of events: those of the
  other threads up to the poll at which it returns, and its own.
\<close>

lemma update_info_beyond: "length (infos s) \<le> r \<Longrightarrow> update_info r f s = s"
  by (simp add: update_info_def list_update_beyond)

lemma on_source_added_run:
  "on_source_added caps sid env s = Some (a, s', env') \<Longrightarrow> \<exists>evs. s' = run evs s"
proof (cases "case caps of None \<Rightarrow> False | Some nm \<Rightarrow> take 5 nm \<noteq> ''video''")
  case True
  assume "on_source_added caps sid env s = Some (a, s', env')"
  with True have "s' = run [] s" by (simp add: on_source_added_def)
  then show ?thesis ..
next
  case False
  assume o: "on_source_added caps sid env s = Some (a, s', env')"
  show ?thesis
  proof (cases "get_source s sid")
    case (Inl e)
    with False o have "s' = run [SourceAdded sid] s"
      by (simp add: on_source_added_def split: prod.splits)
    then show ?thesis ..
  next
    case (Inr r)
    with False o obtain t where w: "wait_release r env s = Some (t, env')"
      and s': "s' = update_info r (\<lambda>i. i\<lparr>lock := False\<rparr>) t"
      by (auto simp: on_source_added_def split: option.splits)
    from wait_release_SomeD [OF w] obtain k where
      l: "lock (infos t ! r)" and t: "t = run (concat (take k env)) s"
      by blast
    have "s' = step (LockWait r) t"
    proof (cases "r < length (infos t)")
      case True
      with l s' show ?thesis by (simp add: lock_wait_def)
    next
      case False
      with s' show ?thesis by (simp add: update_info_beyond)
    qed
    then have "s' = run (concat (take k env) @ [LockWait r]) s"
      unfolding t run_append by simp
    then show ?thesis ..
  qed
qed

section \<open>The EOS probe of the demuxer: which events detach\<close>

text \<open>
  C9 (amended). The probe drops the event exactly when the parsed pad index is present,
  lies within the list of demuxer pads and the receiving pad is the pad at that index. In
  that case a pad with a peer is unlinked from it and the peer is sent EOS; a pad without
  peer is left as it is. An event without pad index, or received on another pad than the
  one at its index, is passed on and nothing changes.
\<close>

theorem demuxer_src_pad_eos_detach:
  "((\<exists>g'. on_demuxer_src_pad_eos pad parsed g = Inr (DROP, g')) \<longleftrightarrow>
      (\<exists>i. parsed = Some i \<and> i < length (demuxer_src_pads g) \<and> pad = demuxer_src_pads g ! i)) \<and>
   (\<forall>i p. parsed = Some i \<and> i < length (demuxer_src_pads g) \<and> pad = demuxer_src_pads g ! i \<and>
      peer g pad = Some p \<longrightarrow>
      on_demuxer_src_pad_eos pad parsed g =
        Inr (DROP, g\<lparr>peer := (peer g)(pad := None, p := None), eos_sent := eos_sent g @ [p]\<rparr>)) \<and>
   (\<forall>i. parsed = Some i \<and> i < length (demuxer_src_pads g) \<and> pad = demuxer_src_pads g ! i \<and>
      peer g pad = None \<longrightarrow>
      on_demuxer_src_pad_eos pad parsed g = Inr (DROP, g)) \<and>
   (parsed = None \<or>
      (\<exists>i. parsed = Some i \<and> i < length (demuxer_src_pads g) \<and> pad \<noteq> demuxer_src_pads g ! i) \<longrightarrow>
      on_demuxer_src_pad_eos pad parsed g = Inr (PASS, g))"
  by (auto simp: on_demuxer_src_pad_eos_def split: option.splits)

theorem demuxer_src_pad_eos_detach_witness:
  "on_demuxer_src_pad_eos ''src_0'' (Some 0) example_demuxer = Inr (DROP, example_demuxer_detached) \<and>
   on_demuxer_src_pad_eos ''src_1'' (Some 0) example_demuxer = Inr (PASS, example_demuxer) \<and>
   on_demuxer_src_pad_eos ''src_0'' None example_demuxer = Inr (PASS, example_demuxer)"
proof -
  have p: "peer example_demuxer ''src_0'' = Some ''queue.sink''"
    by (simp add: example_demuxer_def)
  have e: "example_demuxer\<lparr>peer := (peer example_demuxer)(''src_0'' := None, ''queue.sink'' := None),
      eos_sent := eos_sent example_demuxer @ [''queue.sink'']\<rparr> = example_demuxer_detached"
    by (simp add: example_demuxer_def example_demuxer_detached_def fun_eq_iff)
  have l: "0 < length (demuxer_src_pads example_demuxer)"
    and m: "''src_0'' = demuxer_src_pads example_demuxer ! 0"
    and n: "''src_1'' \<noteq> demuxer_src_pads example_demuxer ! 0"
    by (simp_all add: example_demuxer_def)
  have 1: "on_demuxer_src_pad_eos ''src_0'' (Some 0) example_demuxer =
      Inr (DROP, example_demuxer\<lparr>peer := (peer example_demuxer)(''src_0'' := None, ''queue.sink'' := None),
        eos_sent := eos_sent example_demuxer @ [''queue.sink'']\<rparr>)"
    using demuxer_src_pad_eos_detach [of "''src_0''" "Some 0" example_demuxer] p l m by blast
  have 2: "on_demuxer_src_pad_eos ''src_1'' (Some 0) example_demuxer = Inr (PASS, example_demuxer)"
    using demuxer_src_pad_eos_detach [of "''src_1''" "Some 0" example_demuxer] l n by blast
  have 3: "on_demuxer_src_pad_eos ''src_0'' None example_demuxer = Inr (PASS, example_demuxer)"
    using demuxer_src_pad_eos_detach [of "''src_0''" None example_demuxer] by blast
  from 1 2 3 show ?thesis by (simp only: e)
qed

text \<open>
  The claim as stated fails: on the pad allocated for the parsed index, but without a
  peer, the event is dropped and nothing is unlinked and no EOS is sent.
\<close>

theorem demuxer_src_pad_eos_no_peer_counterexample:
  "demuxer_src_pads example_demuxer_detached ! 0 = ''src_0'' \<and>
   on_demuxer_src_pad_eos ''src_0'' (Some 0) example_demuxer_detached
     = Inr (DROP, example_demuxer_detached)"
  by (simp add: on_demuxer_src_pad_eos_def example_demuxer_detached_def)

section \<open>Edges of a bounding box\<close>

text \<open>An operation whose exact result is a double returns it.\<close>

lemma to_float_exact: "is_double x \<Longrightarrow> to_float x = Finite x"
  by (simp add: is_double_def to_float_def Let_def abs_less_iff)

lemma read_after_set_exact:
  assumes "v = Finite x" and "fmul half w = Finite h"
    and "is_double x" and "is_double (x + h)"
  shows "fsub (fadd v (fmul half w)) (fmul half w) = v"
  using assms by (simp add: fsub_def to_float_exact)

lemma right_is_left_plus_width:
  assumes "is_double (w / 2)" and "is_double (c - w / 2)" and "is_double (c + w / 2)"
  shows "fadd (Finite c) (fmul half (Finite w))
         = fadd (fsub (Finite c) (fmul half (Finite w))) (Finite w)"
proof -
  from assms(1) have h: "fmul half (Finite w) = Finite (w / 2)"
    by (simp add: half_def to_float_exact)
  have e: "c - w / 2 + w = c + w / 2" by simp
  from assms(2,3) show ?thesis
    unfolding h by (simp add: fsub_def to_float_exact e)
qed

lemma is_doubleI: "round_double x = x \<Longrightarrow> \<bar>x\<bar> < 2 ^ 1024 \<Longrightarrow> is_double x"
  by (simp add: is_double_def)

lemma to_floatI:
  "x = y \<Longrightarrow> round_double y = r \<Longrightarrow> \<bar>r\<bar> < 2 ^ 1024 \<Longrightarrow> to_float x = Finite r"
  by (simp add: to_float_def Let_def abs_less_iff)

text \<open>
  C10 (amended). Setting \<^verbatim>\<open>left\<close> to \<open>v\<close> leaves the width, the height and \<^verbatim>\<open>y_center\<close> as
  they are and stores the floating-point sum \<^verbatim>\<open>v + 0.5 * width\<close> in \<^verbatim>\<open>x_center\<close>; reading
  \<^verbatim>\<open>left\<close> then returns \<open>v\<close> itself whenever \<open>v\<close> and the half width are finite and their sum
  is a double, so that nothing is rounded. The same holds for \<^verbatim>\<open>top\<close> with the height and
  \<^verbatim>\<open>y_center\<close>. \<^verbatim>\<open>tlbr\<close> is \<^verbatim>\<open>(left, top, right, bottom)\<close>, and \<^verbatim>\<open>right\<close> is the floating-point
  sum \<^verbatim>\<open>left + width\<close> whenever the centre and the width are finite and the half width
  and both edges are doubles without rounding; the same holds for \<^verbatim>\<open>bottom\<close>, \<^verbatim>\<open>top\<close> and
  the height.
\<close>

theorem bbox_edges_up_to_rounding:
  "bbox_width (bbox_set_left v b) = bbox_width b
   \<and> bbox_height (bbox_set_left v b) = bbox_height b
   \<and> y_center (bbox_set_left v b) = y_center b
   \<and> x_center (bbox_set_left v b) = fadd v (fmul half (bbox_width b))
   \<and> (\<forall>x h. v = Finite x \<longrightarrow> fmul half (bbox_width b) = Finite h \<longrightarrow>
          is_double x \<longrightarrow> is_double (x + h) \<longrightarrow>
          bbox_left (bbox_set_left v b) = v)
   \<and> bbox_width (bbox_set_top v b) = bbox_width b
   \<and> bbox_height (bbox_set_top v b) = bbox_height b
   \<and> x_center (bbox_set_top v b) = x_center b
   \<and> y_center (bbox_set_top v b) = fadd v (fmul half (bbox_height b))
   \<and> (\<forall>y h. v = Finite y \<longrightarrow> fmul half (bbox_height b) = Finite h \<longrightarrow>
          is_double y \<longrightarrow> is_double (y + h) \<longrightarrow>
          bbox_top (bbox_set_top v b) = v)
   \<and> bbox_tlbr b = (bbox_left b, bbox_top b, bbox_right b, bbox_bottom b)
   \<and> (\<forall>c w. x_center b = Finite c \<longrightarrow> bbox_width b = Finite w \<longrightarrow>
          is_double (w / 2) \<longrightarrow> is_double (c - w / 2) \<longrightarrow> is_double (c + w / 2) \<longrightarrow>
          bbox_right b = fadd (bbox_left b) (bbox_width b))
   \<and> (\<forall>c w. y_center b = Finite c \<longrightarrow> bbox_height b = Finite w \<longrightarrow>
          is_double (w / 2) \<longrightarrow> is_double (c - w / 2) \<longrightarrow> is_double (c + w / 2) \<longrightarrow>
          bbox_bottom b = fadd (bbox_top b) (bbox_height b))"
proof -
  have l: "\<forall>x h. v = Finite x \<longrightarrow> fmul half (bbox_width b) = Finite h \<longrightarrow>
          is_double x \<longrightarrow> is_double (x + h) \<longrightarrow>
          bbox_left (bbox_set_left v b) = v"
    using read_after_set_exact [of v _ "bbox_width b"]
    by (simp add: bbox_left_def bbox_set_left_def)
  have t: "\<forall>y h. v = Finite y \<longrightarrow> fmul half (bbox_height b) = Finite h \<longrightarrow>
          is_double y \<longrightarrow> is_double (y + h) \<longrightarrow>
          bbox_top (bbox_set_top v b) = v"
    using read_after_set_exact [of v _ "bbox_height b"]
    by (simp add: bbox_top_def bbox_set_top_def)
  have r: "\<forall>c w. x_center b = Finite c \<longrightarrow> bbox_width b = Finite w \<longrightarrow>
          is_double (w / 2) \<longrightarrow> is_double (c - w / 2) \<longrightarrow> is_double (c + w / 2) \<longrightarrow>
          bbox_right b = fadd (bbox_left b) (bbox_width b)"
    using right_is_left_plus_width by (simp add: bbox_right_def bbox_left_def)
  have bt: "\<forall>c w. y_center b = Finite c \<longrightarrow> bbox_height b = Finite w \<longrightarrow>
          is_double (w / 2) \<longrightarrow> is_double (c - w / 2) \<longrightarrow> is_double (c + w / 2) \<longrightarrow>
          bbox_bottom b = fadd (bbox_top b) (bbox_height b)"
    using right_is_left_plus_width by (simp add: bbox_bottom_def bbox_top_def)
  have s: "bbox_width (bbox_set_left v b) = bbox_width b"
    "bbox_height (bbox_set_left v b) = bbox_height b"
    "y_center (bbox_set_left v b) = y_center b"
    "x_center (bbox_set_left v b) = fadd v (fmul half (bbox_width b))"
    "bbox_width (bbox_set_top v b) = bbox_width b"
    "bbox_height (bbox_set_top v b) = bbox_height b"
    "x_center (bbox_set_top v b) = x_center b"
    "y_center (bbox_set_top v b) = fadd v (fmul half (bbox_height b))"
    "bbox_tlbr b = (bbox_left b, bbox_top b, bbox_right b, bbox_bottom b)"
    by (simp_all add: bbox_set_left_def bbox_set_top_def bbox_tlbr_def)
  from s l t r bt show ?thesis by blast
qed

subsection \<open>A box whose edges are exact\<close>

lemma round_double_small:
  "round_double (1 / 2) = 1 / 2" "round_double 1 = 1" "round_double (3 / 2) = 3 / 2"
  "round_double 2 = 2" "round_double (5 / 2) = 5 / 2" "round_double (- (1 / 2)) = - (1 / 2)"
  "round_double 0 = 0"
  by code_simp+

lemma is_double_small:
  "is_double (1 / 2)" "is_double 1" "is_double (3 / 2)" "is_double 2" "is_double (5 / 2)"
  "is_double (- (1 / 2))" "is_double 0"
  by (rule is_doubleI, rule round_double_small, simp)+

lemma half_small:
  "fmul half (Finite 3) = Finite (3 / 2)" "fmul half (Finite 2) = Finite 1"
  unfolding half_def fmul.simps
  by (rule to_floatI [OF _ round_double_small(3)] to_floatI [OF _ round_double_small(2)]; simp)+

theorem bbox_edges_up_to_rounding_witness:
  "bbox_left (bbox_set_left (Finite (1 / 2)) example_bbox) = Finite (1 / 2)
   \<and> bbox_top (bbox_set_top (Finite (1 / 2)) example_bbox) = Finite (1 / 2)
   \<and> bbox_right example_bbox = fadd (bbox_left example_bbox) (bbox_width example_bbox)
   \<and> bbox_bottom example_bbox = fadd (bbox_top example_bbox) (bbox_height example_bbox)"
proof -
  have f: "x_center example_bbox = Finite 1" "y_center example_bbox = Finite 1"
    "bbox_width example_bbox = Finite 3" "bbox_height example_bbox = Finite 2"
    by (simp_all add: example_bbox_def)
  have a: "fmul half (bbox_width example_bbox) = Finite (3 / 2)"
    "fmul half (bbox_height example_bbox) = Finite 1"
    by (simp_all only: f half_small)
  have d: "is_double (1 / 2 + 3 / 2)" "is_double (1 / 2 + 1)" "is_double (3 / 2)" "is_double (2 / 2)"
    "is_double (1 - 3 / 2)" "is_double (1 + 3 / 2)" "is_double (1 - 2 / 2)" "is_double (1 + 2 / 2)"
    using is_double_small by simp_all
  from bbox_edges_up_to_rounding [of "Finite (1 / 2)" example_bbox] f a d is_double_small(1)
  show ?thesis by blast
qed

subsection \<open>Boxes whose edges are rounded\<close>

lemma round_double_wide:
  "round_double (57646075230342349 / 36028797018963968) = 3602879701896397 / 2251799813685248"
  "round_double (225179981368525 / 2251799813685248) = 225179981368525 / 2251799813685248"
  by code_simp+

lemma round_double_narrow:
  "round_double (3602879701896397 / 72057594037927936) = 3602879701896397 / 72057594037927936"
  "round_double (54043195528445949 / 72057594037927936) = 3 / 4"
  "round_double (46837436124653155 / 72057594037927936) = 1463669878895411 / 2251799813685248"
  "round_double (27021597764222973 / 36028797018963968) = 6755399441055743 / 9007199254740992"
  by code_simp+

lemma round_double_inputs:
  "round_double (3602879701896397 / 36028797018963968) = 3602879701896397 / 36028797018963968"
  "round_double (3152519739159347 / 4503599627370496) = 3152519739159347 / 4503599627370496"
  "round_double 3 = 3"
  by code_simp+

lemma set_left_wide:
  "x_center (bbox_set_left (Finite float_0_1) example_bbox_wide)
   = Finite (3602879701896397 / 2251799813685248)"
proof -
  have "fadd (Finite float_0_1) (Finite (3 / 2)) = Finite (3602879701896397 / 2251799813685248)"
    unfolding fadd.simps float_0_1_def
    by (rule to_floatI [OF _ round_double_wide(1)]; simp)
  then show ?thesis
    by (simp add: bbox_set_left_def example_bbox_wide_def half_small)
qed

lemma left_after_set_left_wide:
  "bbox_left (bbox_set_left (Finite float_0_1) example_bbox_wide)
   = Finite (225179981368525 / 2251799813685248)"
proof -
  have w: "bbox_width (bbox_set_left (Finite float_0_1) example_bbox_wide) = Finite 3"
    by (simp add: bbox_set_left_def example_bbox_wide_def)
  have "fadd (Finite (3602879701896397 / 2251799813685248)) (Finite (- (3 / 2)))
        = Finite (225179981368525 / 2251799813685248)"
    unfolding fadd.simps
    by (rule to_floatI [OF _ round_double_wide(2)]; simp)
  then show ?thesis
    unfolding bbox_left_def set_left_wide w half_small fsub_def fneg.simps .
qed

lemma half_narrow:
  "fmul half (Finite float_0_1) = Finite (3602879701896397 / 72057594037927936)"
  unfolding half_def fmul.simps float_0_1_def
  by (rule to_floatI [OF _ round_double_narrow(1)]; simp)

lemma narrow_fields:
  "x_center example_bbox_narrow = Finite float_0_7"
  "bbox_width example_bbox_narrow = Finite float_0_1"
  by (simp_all add: example_bbox_narrow_def)

lemma right_narrow: "bbox_right example_bbox_narrow = Finite (3 / 4)"
  unfolding bbox_right_def narrow_fields half_narrow fadd.simps float_0_7_def
  by (rule to_floatI [OF _ round_double_narrow(2)]; simp)

lemma left_narrow:
  "bbox_left example_bbox_narrow = Finite (1463669878895411 / 2251799813685248)"
  unfolding bbox_left_def narrow_fields half_narrow fsub_def fneg.simps fadd.simps float_0_7_def
  by (rule to_floatI [OF _ round_double_narrow(3)]; simp)

lemma left_plus_width_narrow:
  "fadd (bbox_left example_bbox_narrow) (bbox_width example_bbox_narrow)
   = Finite (6755399441055743 / 9007199254740992)"
  unfolding left_narrow narrow_fields fadd.simps float_0_1_def
  by (rule to_floatI [OF _ round_double_narrow(4)]; simp)

text \<open>
  The claim as stated fails. With a width of \<^verbatim>\<open>3.0\<close>, setting \<^verbatim>\<open>left\<close> to \<^verbatim>\<open>0.1\<close> stores
  \<^verbatim>\<open>1.6\<close> in \<^verbatim>\<open>x_center\<close>, and \<^verbatim>\<open>left\<close> then reads \<^verbatim>\<open>0.10000000000000009\<close>. With
  \<^verbatim>\<open>x_center = 0.7\<close> and a width of \<^verbatim>\<open>0.1\<close>, \<^verbatim>\<open>right\<close> is \<^verbatim>\<open>0.75\<close> while \<^verbatim>\<open>left + width\<close> is
  \<^verbatim>\<open>0.7499999999999999\<close>.
\<close>

theorem read_after_set_not_exact_counterexample:
  "is_double float_0_1 \<and> is_double float_0_7 \<and> is_double 3
   \<and> bbox_left (bbox_set_left (Finite float_0_1) example_bbox_wide)
       = Finite (225179981368525 / 2251799813685248)
   \<and> bbox_left (bbox_set_left (Finite float_0_1) example_bbox_wide) \<noteq> Finite float_0_1
   \<and> bbox_right example_bbox_narrow = Finite (3 / 4)
   \<and> fadd (bbox_left example_bbox_narrow) (bbox_width example_bbox_narrow)
       = Finite (6755399441055743 / 9007199254740992)
   \<and> bbox_right example_bbox_narrow
       \<noteq> fadd (bbox_left example_bbox_narrow) (bbox_width example_bbox_narrow)"
proof -
  have d: "is_double float_0_1" "is_double float_0_7" "is_double 3"
    unfolding float_0_1_def float_0_7_def
    by (rule is_doubleI, rule round_double_inputs, simp)+
  have n: "bbox_left (bbox_set_left (Finite float_0_1) example_bbox_wide) \<noteq> Finite float_0_1"
    by (simp only: left_after_set_left_wide) (simp add: float_0_1_def)
  have m: "bbox_right example_bbox_narrow
       \<noteq> fadd (bbox_left example_bbox_narrow) (bbox_width example_bbox_narrow)"
    by (simp only: right_narrow left_plus_width_narrow) simp
  from d n m left_after_set_left_wide right_narrow left_plus_width_narrow
  show ?thesis by blast
qed

end
